theory Spec2Isabelle
  imports Complex_Main
begin

section \<open>JavaScript strings and numbers\<close>

text \<open>
  A JavaScript string is a sequence of UTF-16 code units; \<open>charCodeAt\<close>, \<open>split\<close> and
  the regular expression engine all work on code units. A string is modelled as the list
  of its code units; \<open>js\<close> turns an ASCII literal into that form.
\<close>

type_synonym jsstring = "nat list"

definition js :: "string \<Rightarrow> jsstring" where
  "js s = map of_char s"

text \<open>\<open>ToInt32\<close>: reduction modulo \<open>2^32\<close> into the signed 32-bit range, as the
  operators \<open><<\<close> and \<open>&\<close> apply it to their operands and results.\<close>

definition toInt32 :: "int \<Rightarrow> int" where
  "toInt32 x = (let m = x mod 2 ^ 32 in if m \<ge> 2 ^ 31 then m - 2 ^ 32 else m)"

definition shl :: "int \<Rightarrow> nat \<Rightarrow> int" where
  "shl x n = toInt32 (toInt32 x * 2 ^ n)"

definition bitand_self :: "int \<Rightarrow> int" where
  \<comment> \<open>\<open>hash & hash\<close>: both operands are the same, so only the conversion remains\<close>
  "bitand_self x = toInt32 x"

text \<open>The remainder operator \<open>%\<close> truncates: the result has the sign of the dividend.\<close>

definition js_rem :: "int \<Rightarrow> int \<Rightarrow> int" where
  "js_rem a b = sgn a * (\<bar>a\<bar> mod \<bar>b\<bar>)"

text \<open>\<open>Number.prototype.toString\<close> on a non-negative integer: its decimal digits.\<close>

fun toDigits :: "nat \<Rightarrow> jsstring" where
  "toDigits n = (if n < 10 then [48 + n] else toDigits (n div 10) @ [48 + n mod 10])"

declare toDigits.simps [simp del]

definition toString :: "int \<Rightarrow> jsstring" where
  "toString i = (if i < 0 then 45 # toDigits (nat (- i)) else toDigits (nat i))"

text \<open>
  \<open>toLowerCase\<close> on the code units below 256: the ASCII letters \<open>A\<close>..\<open>Z\<close> and the Latin-1
  capitals \<open>U+00C0\<close>..\<open>U+00DE\<close> (without the multiplication sign \<open>U+00D7\<close>) move up by 32,
  every other code unit below 256 is left alone, as JavaScript does. The Unicode case
  mapping of code units from 256 on is not modelled: they are left alone here.
\<close>

definition toLowerCase :: "jsstring \<Rightarrow> jsstring" where
  "toLowerCase s =
     map (\<lambda>c. if (65 \<le> c \<and> c \<le> 90) \<or> (192 \<le> c \<and> c \<le> 222 \<and> c \<noteq> 215) then c + 32 else c) s"

text \<open>The code units \<open>trim\<close> strips: ECMAScript WhiteSpace and LineTerminator.\<close>

definition isWhiteSpace :: "nat \<Rightarrow> bool" where
  "isWhiteSpace c \<longleftrightarrow>
     c \<in> {9, 10, 11, 12, 13, 32, 160, 5760, 8232, 8233, 8239, 8287, 12288, 65279}
     \<or> (8192 \<le> c \<and> c \<le> 8202)"

definition trim :: "jsstring \<Rightarrow> jsstring" where
  "trim s = rev (dropWhile isWhiteSpace (rev (dropWhile isWhiteSpace s)))"

section \<open>Activation code (\<open>getActivationCode\<close>)\<close>

text \<open>
  The loop body \<open>hash = ((hash << 5) - hash) + char; hash = hash & hash\<close>, run over the
  code units of the lower-cased, trimmed e-mail address from left to right.
\<close>

fun hashLoop :: "int \<Rightarrow> jsstring \<Rightarrow> int" where
  "hashLoop hash [] = hash"
| "hashLoop hash (char # rest) =
     hashLoop (bitand_self ((shl hash 5 - hash) + int char)) rest"

definition getActivationCode :: "jsstring \<Rightarrow> jsstring" where
  "getActivationCode email =
     (if email = [] then js ''000000''
      else let lowerEmail = trim (toLowerCase email);
               hash = hashLoop 0 lowerEmail;
               code = toString \<bar>js_rem hash 900000 + 100000\<bar>
           in code)"

section \<open>Data URLs (\<open>sourceImageToDataUrl\<close>, \<open>dataUrlToSourceImage\<close>)\<close>

record SourceImage =
  base64 :: jsstring
  mimeType :: jsstring

definition sourceImageToDataUrl :: "SourceImage \<Rightarrow> jsstring" where
  "sourceImageToDataUrl simage =
     js ''data:'' @ mimeType simage @ js '';base64,'' @ base64 simage"

text \<open>
  \<open>String.prototype.split\<close> with a one-code-unit separator: all the pieces, in order.
  The result always has a first piece, so the empty case of the inner \<open>case\<close> is never
  taken.
\<close>

fun split :: "nat \<Rightarrow> jsstring \<Rightarrow> jsstring list" where
  "split sep [] = [[]]"
| "split sep (c # cs) =
     (if c = sep then [] # split sep cs
      else (case split sep cs of
              p # ps \<Rightarrow> (c # p) # ps
            | [] \<Rightarrow> [[c]]))"

text \<open>
  The regular expression \<open>/:(.*?);/\<close>. The dot matches every code unit that is not a
  line terminator; the lazy star stops at the first \<open>;\<close>. \<open>lazyToSemicolon\<close> matches
  \<open>(.*?);\<close> at the front of its argument and returns the group; \<open>matchMime\<close> looks for
  the leftmost \<open>:\<close> from which the rest matches, as \<open>match\<close> does, and returns group 1.
\<close>

definition isLineTerminator :: "nat \<Rightarrow> bool" where
  "isLineTerminator c \<longleftrightarrow> c \<in> {10, 13, 8232, 8233}"

fun lazyToSemicolon :: "jsstring \<Rightarrow> jsstring option" where
  "lazyToSemicolon [] = None"
| "lazyToSemicolon (c # cs) =
     (if c = 59 then Some []
      else if isLineTerminator c then None
      else map_option (Cons c) (lazyToSemicolon cs))"

fun matchMime :: "jsstring \<Rightarrow> jsstring option" where
  "matchMime [] = None"
| "matchMime (c # cs) =
     (if c = 58 then (case lazyToSemicolon cs of Some g \<Rightarrow> Some g | None \<Rightarrow> matchMime cs)
      else matchMime cs)"

text \<open>
  \<open>const [header, base64Data] = dataUrl.split(',')\<close>: the first two pieces, the second
  one \<open>undefined\<close> (here \<open>None\<close>) when there is no comma. An empty string and
  \<open>undefined\<close> are both falsy.
\<close>

definition dataUrlToSourceImage :: "jsstring \<Rightarrow> SourceImage option" where
  "dataUrlToSourceImage dataUrl =
     (if dataUrl = [] then None
      else let parts = split 44 dataUrl;
               header = hd parts;
               base64Data = (case tl parts of [] \<Rightarrow> None | b # _ \<Rightarrow> Some b);
               mime = matchMime header
           in if base64Data = None \<or> base64Data = Some [] \<or> mime = None \<or> mime = Some []
              then None
              else Some \<lparr>base64 = the base64Data, mimeType = the mime\<rparr>)"

section \<open>Bitmaps and the 2D canvas\<close>

text \<open>
  A decoded image or a canvas surface is a grid of RGBA pixels. Channels are exact
  rationals between 0 and 1 with the colour premultiplied by alpha, which is the form in
  which the canvas compositing rules are written. \<open>width\<close> and \<open>naturalWidth\<close> of an
  image element that is not in the document are the same number.
\<close>

record pixel =
  red :: rat
  green :: rat
  blue :: rat
  alpha :: rat

record bitmap =
  naturalWidth :: nat
  naturalHeight :: nat
  pixelAt :: "nat \<Rightarrow> nat \<Rightarrow> pixel"

definition transparent :: pixel where
  "transparent = \<lparr>red = 0, green = 0, blue = 0, alpha = 0\<rparr>"

definition pixel_identical :: "bitmap \<Rightarrow> bitmap \<Rightarrow> bool" where
  "pixel_identical a b \<longleftrightarrow>
     naturalWidth a = naturalWidth b \<and> naturalHeight a = naturalHeight b \<and>
     (\<forall>x<naturalWidth a. \<forall>y<naturalHeight a. pixelAt a x y = pixelAt b x y)"

text \<open>
  What is drawn is first rendered onto an unbounded transparent plane (a layer), then
  combined with the canvas pixel by pixel under \<open>globalCompositeOperation\<close>.
\<close>

type_synonym layer = "int \<Rightarrow> int \<Rightarrow> pixel"

datatype composite_op = SourceOver | DestinationIn | SourceIn

fun blend :: "composite_op \<Rightarrow> pixel \<Rightarrow> pixel \<Rightarrow> pixel" where
  "blend SourceOver s d =
     \<lparr>red = red s + red d * (1 - alpha s), green = green s + green d * (1 - alpha s),
      blue = blue s + blue d * (1 - alpha s), alpha = alpha s + alpha d * (1 - alpha s)\<rparr>"
| "blend DestinationIn s d =
     \<lparr>red = red d * alpha s, green = green d * alpha s,
      blue = blue d * alpha s, alpha = alpha d * alpha s\<rparr>"
| "blend SourceIn s d =
     \<lparr>red = red s * alpha d, green = green s * alpha d,
      blue = blue s * alpha d, alpha = alpha s * alpha d\<rparr>"

declare blend.simps [simp del]

record ctx2d =
  canvas :: bitmap
  globalCompositeOperation :: composite_op
  filter_of :: "(layer \<Rightarrow> layer) option"
  fillStyle :: pixel

definition createCanvas :: "nat \<Rightarrow> nat \<Rightarrow> ctx2d" where
  \<comment> \<open>\<open>document.createElement('canvas')\<close>, its size set, then \<open>getContext('2d')\<close>\<close>
  "createCanvas w h =
     \<lparr>canvas = \<lparr>naturalWidth = w, naturalHeight = h, pixelAt = (\<lambda>x y. transparent)\<rparr>,
      globalCompositeOperation = SourceOver,
      filter_of = None,
      fillStyle = \<lparr>red = 0, green = 0, blue = 0, alpha = 1\<rparr>\<rparr>"

definition paint :: "ctx2d \<Rightarrow> layer \<Rightarrow> ctx2d" where
  "paint ctx L =
     (let F = (case filter_of ctx of None \<Rightarrow> L | Some f \<Rightarrow> f L);
          c = canvas ctx
      in ctx\<lparr>canvas := c\<lparr>pixelAt := (\<lambda>x y.
            if x < naturalWidth c \<and> y < naturalHeight c
            then blend (globalCompositeOperation ctx) (F (int x) (int y)) (pixelAt c x y)
            else pixelAt c x y)\<rparr>\<rparr>)"

definition imageLayer :: "bitmap \<Rightarrow> int \<Rightarrow> int \<Rightarrow> layer" where
  "imageLayer img dx dy =
     (\<lambda>x y. if dx \<le> x \<and> x < dx + int (naturalWidth img) \<and>
                dy \<le> y \<and> y < dy + int (naturalHeight img)
             then pixelAt img (nat (x - dx)) (nat (y - dy))
             else transparent)"

definition drawImage :: "ctx2d \<Rightarrow> bitmap \<Rightarrow> int \<Rightarrow> int \<Rightarrow> ctx2d" where
  \<comment> \<open>\<open>ctx.drawImage(img, dx, dy)\<close>: at its own size\<close>
  "drawImage ctx img dx dy = paint ctx (imageLayer img dx dy)"

text \<open>
  \<open>ctx.drawImage(img, dx, dy, dw, dh)\<close> stretches the image to \<open>dw\<close> by \<open>dh\<close> first. How
  the pixels are interpolated is the browser's choice, so the resampler is a parameter.
\<close>

definition drawImageScaled ::
  "(bitmap \<Rightarrow> nat \<Rightarrow> nat \<Rightarrow> bitmap) \<Rightarrow> ctx2d \<Rightarrow> bitmap \<Rightarrow> int \<Rightarrow> int \<Rightarrow> nat \<Rightarrow> nat \<Rightarrow> ctx2d" where
  "drawImageScaled rs ctx img dx dy dw dh = paint ctx (imageLayer (rs img dw dh) dx dy)"

definition fillRect :: "ctx2d \<Rightarrow> int \<Rightarrow> int \<Rightarrow> int \<Rightarrow> int \<Rightarrow> ctx2d" where
  "fillRect ctx rx ry rw rh =
     paint ctx (\<lambda>x y. if rx \<le> x \<and> x < rx + rw \<and> ry \<le> y \<and> y < ry + rh
                       then fillStyle ctx else transparent)"

section \<open>What the browser and the remote model provide\<close>

datatype error = LoadError | RemoteError

datatype part = TextPart jsstring | InlineDataPart jsstring jsstring

text \<open>
  \<open>loadImage\<close> decodes a data URL or rejects with \<open>Failed to load image\<close>; \<open>toDataURL\<close>
  encodes a canvas; \<open>parseColor\<close> reads a CSS colour; \<open>blur\<close> is the \<open>blur(Npx)\<close> filter;
  \<open>generateContent\<close> is the remote model called with the padded image, the mask and the
  prompt, answering with the parts of its first candidate or failing;
  \<open>generateImageRest\<close> is the REST helper, which answers with a list of data URLs (empty
  when every attempt failed). An \<open>InlineDataPart\<close> carries the media type (empty when
  the answer names none) and the data.
\<close>

record env =
  loadImage :: "jsstring \<Rightarrow> error + bitmap"
  toDataURL :: "bitmap \<Rightarrow> jsstring \<Rightarrow> jsstring"
  resample :: "bitmap \<Rightarrow> nat \<Rightarrow> nat \<Rightarrow> bitmap"
  parseColor :: "jsstring \<Rightarrow> pixel"
  blur :: "rat \<Rightarrow> layer \<Rightarrow> layer"
  generateContent :: "jsstring option \<Rightarrow> jsstring option \<Rightarrow> jsstring \<Rightarrow> error + part list"
  generateImageRest :: "jsstring \<Rightarrow> jsstring \<Rightarrow> nat \<Rightarrow> jsstring list"

section \<open>JavaScript numbers\<close>

text \<open>
  A JavaScript number is an IEEE 754 binary64 value. It is modelled by the rational it
  stands for, and every arithmetic operation rounds its exact result to the nearest
  binary64 value, ties to the even significand: \<open>fl\<close>. A positive \<open>x\<close> lies in
  \<open>[2^e, 2^(e+1))\<close> for \<open>e = exponent x\<close>, and the binary64 values there are the multiples
  of \<open>2^(e-52)\<close>. The exponent range is not modelled (no overflow to \<open>Infinity\<close>, no
  subnormal numbers), and neither are \<open>NaN\<close> and division by zero: the functions below
  are JavaScript's for operands and results between \<open>2^-1022\<close> and \<open>2^1024\<close> in size.
\<close>

function expUp :: "rat \<Rightarrow> int" where
  "expUp x = (if 2 \<le> x then expUp (x / 2) + 1 else 0)"
  by pat_completeness auto
termination
proof (relation "measure (\<lambda>x. nat \<lfloor>x\<rfloor>)")
  show "wf (measure (\<lambda>x::rat. nat \<lfloor>x\<rfloor>))" by simp
next
  fix x :: rat
  assume "2 \<le> x"
  then have "x / 2 \<le> x - 1" by simp
  then have "\<lfloor>x / 2\<rfloor> \<le> \<lfloor>x - 1\<rfloor>" by (rule floor_mono)
  moreover have "0 < \<lfloor>x\<rfloor>" using \<open>2 \<le> x\<close> by simp
  ultimately show "(x / 2, x) \<in> measure (\<lambda>x. nat \<lfloor>x\<rfloor>)" by simp
qed

function expDown :: "rat \<Rightarrow> int" where
  "expDown x = (if 0 < x \<and> x < 1 then expDown (x * 2) - 1 else 0)"
  by pat_completeness auto
termination
proof (relation "measure (\<lambda>x. nat \<lfloor>1 / x\<rfloor>)")
  show "wf (measure (\<lambda>x::rat. nat \<lfloor>1 / x\<rfloor>))" by simp
next
  fix x :: rat
  assume a: "0 < x \<and> x < 1"
  define y where "y = 1 / x"
  have y: "1 < y" using a by (simp add: y_def)
  have half: "1 / (x * 2) = y / 2" by (simp add: y_def)
  have lt: "\<lfloor>y / 2\<rfloor> < \<lfloor>y\<rfloor>"
  proof (cases "2 \<le> y")
    case True
    then have "y / 2 \<le> y - 1" by simp
    then have "\<lfloor>y / 2\<rfloor> \<le> \<lfloor>y - 1\<rfloor>" by (rule floor_mono)
    then show ?thesis by simp
  next
    case False
    then have "y / 2 < 1" by simp
    moreover have "0 \<le> y / 2" using y by simp
    ultimately have "\<lfloor>y / 2\<rfloor> = 0" by (simp add: floor_eq_iff)
    moreover have "1 \<le> \<lfloor>y\<rfloor>" using y by (simp add: le_floor_iff)
    ultimately show ?thesis by simp
  qed
  have pos: "0 < \<lfloor>y\<rfloor>" using y by (simp add: less_floor_iff le_floor_iff)
  have "nat \<lfloor>1 / (x * 2)\<rfloor> < nat \<lfloor>1 / x\<rfloor>"
    unfolding half using lt pos by (simp add: y_def)
  then show "(x * 2, x) \<in> measure (\<lambda>x. nat \<lfloor>1 / x\<rfloor>)" by simp
qed

declare expUp.simps [simp del]

declare expDown.simps [simp del]

definition exponent :: "rat \<Rightarrow> int" where
  "exponent x = (if 1 \<le> x then expUp x else expDown x)"

definition roundHalfEven :: "rat \<Rightarrow> int" where
  "roundHalfEven y =
     (let f = \<lfloor>y\<rfloor>; d = y - of_int f
      in if d < 1 / 2 then f else if 1 / 2 < d then f + 1 else if even f then f else f + 1)"

definition fl :: "rat \<Rightarrow> rat" where
  "fl x = (if x = 0 then 0
           else let u = 2 powi (exponent \<bar>x\<bar> - 52)
                in sgn x * (of_int (roundHalfEven (\<bar>x\<bar> / u)) * u))"

definition jsDiv :: "rat \<Rightarrow> rat \<Rightarrow> rat" where
  \<comment> \<open>\<open>a / b\<close>\<close>
  "jsDiv a b = fl (a / b)"

definition jsMul :: "rat \<Rightarrow> rat \<Rightarrow> rat" where
  \<comment> \<open>\<open>a * b\<close>\<close>
  "jsMul a b = fl (a * b)"

definition jsSub :: "rat \<Rightarrow> rat \<Rightarrow> rat" where
  \<comment> \<open>\<open>a - b\<close>\<close>
  "jsSub a b = fl (a - b)"

text \<open>\<open>Math.round\<close> gives the nearest integer, a half upwards, and is exact.\<close>

definition Math_round :: "rat \<Rightarrow> int" where
  "Math_round x = \<lfloor>x + 1 / 2\<rfloor>"

section \<open>Nearest aspect ratio (\<open>getClosestAspectRatio\<close>)\<close>

text \<open>
  \<open>MAX_VALUE\<close> is \<open>Number.MAX_VALUE\<close>. The table holds the binary64 values of the
  literals \<open>1.0\<close>, \<open>1.333\<close>, \<open>0.75\<close>, \<open>1.777\<close> and \<open>0.5625\<close>. The loop keeps the pair
  \<open>(minDiff, closest)\<close>; \<open>Math.abs\<close> is exact.
\<close>

definition MAX_VALUE :: rat where
  "MAX_VALUE = (2 ^ 53 - 1) * 2 ^ 971"

definition supportedRatios :: "(jsstring \<times> rat) list" where
  "supportedRatios =
     [(js ''1:1'', fl 1), (js ''4:3'', fl (1333 / 1000)), (js ''3:4'', fl (75 / 100)),
      (js ''16:9'', fl (1777 / 1000)), (js ''9:16'', fl (5625 / 10000))]"

fun scanRatios :: "rat \<Rightarrow> (jsstring \<times> rat) list \<Rightarrow> rat \<times> jsstring \<Rightarrow> rat \<times> jsstring" where
  "scanRatios ratio [] (minDiff, closest) = (minDiff, closest)"
| "scanRatios ratio ((label, val) # rs) (minDiff, closest) =
     (let diff = \<bar>jsSub ratio val\<bar>
      in if diff < minDiff then scanRatios ratio rs (diff, label)
         else scanRatios ratio rs (minDiff, closest))"

text \<open>
  With height 0 the quotient is \<open>Infinity\<close> or \<open>NaN\<close> in JavaScript, every
  \<open>diff < minDiff\<close> is false and the initial \<open>"1:1"\<close> is returned. A failed decode is
  caught and gives \<open>"1:1"\<close> as well.
\<close>

definition getClosestAspectRatio :: "env \<Rightarrow> SourceImage \<Rightarrow> jsstring" where
  "getClosestAspectRatio E simage =
     (case loadImage E (sourceImageToDataUrl simage) of
        Inl e \<Rightarrow> js ''1:1''
      | Inr img \<Rightarrow>
          if naturalHeight img = 0 then js ''1:1''
          else let ratio = jsDiv (of_nat (naturalWidth img)) (of_nat (naturalHeight img))
               in snd (scanRatios ratio supportedRatios (MAX_VALUE, js ''1:1'')))"

section \<open>Padding to an aspect ratio (\<open>padImageToAspectRatioWithColor\<close>)\<close>

text \<open>
  The variables \<open>canvasWidth\<close>, \<open>canvasHeight\<close>, \<open>dx\<close>, \<open>dy\<close> after the \<open>if\<close>. The same
  lines open \<open>outpaintImage\<close>. The target ratio is a number, that is, a binary64 value.
  A height of 0 or a target ratio of 0 makes JavaScript divide by zero, which is not
  modelled.
\<close>

record geometry =
  canvasWidth :: int
  canvasHeight :: int
  offset_dx :: int
  offset_dy :: int

definition padGeometry :: "nat \<Rightarrow> nat \<Rightarrow> rat \<Rightarrow> geometry" where
  "padGeometry w h targetAspectRatio =
     (let originalAspectRatio = jsDiv (of_nat w) (of_nat h)
      in if originalAspectRatio > targetAspectRatio
         then (let ch = Math_round (jsDiv (of_nat w) targetAspectRatio)
               in \<lparr>canvasWidth = int w, canvasHeight = ch,
                   offset_dx = 0,
                   offset_dy = Math_round (jsDiv (jsSub (of_int ch) (of_nat h)) 2)\<rparr>)
         else (let cw = Math_round (jsMul (of_nat h) targetAspectRatio)
               in \<lparr>canvasWidth = cw, canvasHeight = int h,
                   offset_dx = Math_round (jsDiv (jsSub (of_int cw) (of_nat w)) 2),
                   offset_dy = 0\<rparr>))"

definition padCanvas :: "bitmap \<Rightarrow> rat \<Rightarrow> pixel \<Rightarrow> bitmap" where
  \<comment> \<open>the canvas as it is when \<open>toDataURL\<close> is called\<close>
  "padCanvas img targetAspectRatio color =
     (let g = padGeometry (naturalWidth img) (naturalHeight img) targetAspectRatio;
          ctx = createCanvas (nat (canvasWidth g)) (nat (canvasHeight g));
          ctx = ctx\<lparr>fillStyle := color\<rparr>;
          ctx = fillRect ctx 0 0 (int (naturalWidth (canvas ctx))) (int (naturalHeight (canvas ctx)));
          ctx = drawImage ctx img (offset_dx g) (offset_dy g)
      in canvas ctx)"

definition padImageToAspectRatioWithColor ::
  "env \<Rightarrow> SourceImage \<Rightarrow> rat \<Rightarrow> jsstring \<Rightarrow> error + SourceImage option" where
  "padImageToAspectRatioWithColor E simage targetAspectRatio color =
     (case loadImage E (sourceImageToDataUrl simage) of
        Inl e \<Rightarrow> Inl e
      | Inr img \<Rightarrow>
          Inr (dataUrlToSourceImage
                 (toDataURL E (padCanvas img targetAspectRatio (parseColor E color))
                    (js ''image/png''))))"

text \<open>
  The image sizes and target ratios the theorems on padding speak about: a positive
  height, sides below \<open>2^24\<close> pixels and a ratio between \<open>2^-24\<close> and \<open>2^24\<close>. Every
  number the padding computes is then far inside the binary64 range, and the canvas
  sides stay below \<open>2^53\<close>.
\<close>

definition inRange :: "nat \<Rightarrow> nat \<Rightarrow> rat \<Rightarrow> bool" where
  "inRange w h r \<longleftrightarrow> 0 < h \<and> w < 2 ^ 24 \<and> h < 2 ^ 24 \<and> 1 / 2 ^ 24 \<le> r \<and> r \<le> 2 ^ 24"

section \<open>Strict masked composite (\<open>strictComposite\<close>)\<close>

definition strictCompositeCanvas ::
  "(bitmap \<Rightarrow> nat \<Rightarrow> nat \<Rightarrow> bitmap) \<Rightarrow> bitmap \<Rightarrow> bitmap \<Rightarrow> bitmap \<Rightarrow> bitmap" where
  \<comment> \<open>the canvas as it is when \<open>toDataURL\<close> is called\<close>
  "strictCompositeCanvas rs orig gen maskImg =
     (let ctx = createCanvas (naturalWidth orig) (naturalHeight orig);
          ctx = drawImage ctx orig 0 0;
          w = naturalWidth (canvas ctx);
          h = naturalHeight (canvas ctx);
          tempCtx = createCanvas w h;
          tempCtx = drawImageScaled rs tempCtx gen 0 0 w h;
          tempCtx = tempCtx\<lparr>globalCompositeOperation := DestinationIn\<rparr>;
          tempCtx = drawImageScaled rs tempCtx maskImg 0 0 w h;
          ctx = drawImage ctx (canvas tempCtx) 0 0
      in canvas ctx)"

definition strictComposite_try :: "env \<Rightarrow> jsstring \<Rightarrow> jsstring \<Rightarrow> jsstring \<Rightarrow> error + jsstring" where
  \<comment> \<open>the body of the \<open>try\<close> block: any of the three decodes may reject\<close>
  "strictComposite_try E originalB64 generatedB64 maskB64 =
     (case loadImage E originalB64 of
        Inl e \<Rightarrow> Inl e
      | Inr orig \<Rightarrow>
          (case loadImage E generatedB64 of
             Inl e \<Rightarrow> Inl e
           | Inr gen \<Rightarrow>
               (case loadImage E maskB64 of
                  Inl e \<Rightarrow> Inl e
                | Inr maskImg \<Rightarrow>
                    Inr (toDataURL E (strictCompositeCanvas (resample E) orig gen maskImg)
                           (js ''image/png'')))))"

definition strictComposite :: "env \<Rightarrow> jsstring \<Rightarrow> jsstring \<Rightarrow> jsstring \<Rightarrow> error + jsstring" where
  \<comment> \<open>\<open>catch (e) { return generatedB64 }\<close>\<close>
  "strictComposite E originalB64 generatedB64 maskB64 =
     (case strictComposite_try E originalB64 generatedB64 maskB64 of
        Inr url \<Rightarrow> Inr url
      | Inl e \<Rightarrow> Inr generatedB64)"

section \<open>Foreground over background (\<open>compositeImage\<close>)\<close>

record BoundingBox =
  box_x :: rat
  box_y :: rat
  box_width :: rat
  box_height :: rat

record options =
  edgeBlend :: rat

definition compositeCanvas ::
  "env \<Rightarrow> bitmap \<Rightarrow> bitmap \<Rightarrow> BoundingBox \<Rightarrow> bitmap \<Rightarrow> options \<Rightarrow> bitmap" where
  "compositeCanvas E bg fg box maskImg opts =
     (let ctx = createCanvas (naturalWidth bg) (naturalHeight bg);
          ctx = drawImage ctx bg 0 0;
          w = naturalWidth (canvas ctx);
          h = naturalHeight (canvas ctx);
          fgCtx = createCanvas w h;
          fgCtx = (if edgeBlend opts > 0
                   then fgCtx\<lparr>filter_of := Some (blur E (edgeBlend opts))\<rparr> else fgCtx);
          fgCtx = drawImage fgCtx maskImg 0 0;
          fgCtx = fgCtx\<lparr>globalCompositeOperation := SourceIn\<rparr>;
          fgCtx = fgCtx\<lparr>filter_of := None\<rparr>;
          fgCtx = drawImageScaled (resample E) fgCtx fg 0 0 w h;
          ctx = drawImage ctx (canvas fgCtx) 0 0
      in canvas ctx)"

definition compositeImage ::
  "env \<Rightarrow> SourceImage \<Rightarrow> SourceImage \<Rightarrow> BoundingBox \<Rightarrow> SourceImage \<Rightarrow> options \<Rightarrow> error + jsstring" where
  "compositeImage E bgImage fgImage box maskImage opts =
     (case loadImage E (sourceImageToDataUrl bgImage) of
        Inl e \<Rightarrow> Inl e
      | Inr bg \<Rightarrow>
          (case loadImage E (sourceImageToDataUrl fgImage) of
             Inl e \<Rightarrow> Inl e
           | Inr fg \<Rightarrow>
               (case loadImage E (sourceImageToDataUrl maskImage) of
                  Inl e \<Rightarrow> Inl e
                | Inr maskImg \<Rightarrow>
                    Inr (toDataURL E (compositeCanvas E bg fg box maskImg opts)
                           (js ''image/png'')))))"

section \<open>Outpainting (\<open>outpaintImage\<close>)\<close>

text \<open>
  The service file holds two bodies for \<open>outpaintImage\<close>. The one that pads the source,
  builds the mask, calls the remote model and finishes the answer on a canvas is
  \<open>outpaintImage\<close> below; the one that only forwards a prompt to the REST helper and
  returns its first image is \<open>outpaintImage_rest\<close>.
\<close>

definition black :: pixel where
  "black = \<lparr>red = 0, green = 0, blue = 0, alpha = 1\<rparr>"

definition white :: pixel where
  "white = \<lparr>red = 1, green = 1, blue = 1, alpha = 1\<rparr>"

definition secondPiece :: "jsstring \<Rightarrow> jsstring option" where
  \<comment> \<open>\<open>s.split(',')[1]\<close>, \<open>undefined\<close> when there is no comma\<close>
  "secondPiece s = (case tl (split 44 s) of [] \<Rightarrow> None | b # _ \<Rightarrow> Some b)"

fun hasInlineData :: "part \<Rightarrow> bool" where
  "hasInlineData (InlineDataPart m d) = True"
| "hasInlineData (TextPart t) = False"

definition outpaintFinalCanvas ::
  "(bitmap \<Rightarrow> nat \<Rightarrow> nat \<Rightarrow> bitmap) \<Rightarrow> bitmap \<Rightarrow> geometry \<Rightarrow> bitmap \<Rightarrow> bitmap" where
  \<comment> \<open>the finishing step: the answer stretched over the canvas, the source on top\<close>
  "outpaintFinalCanvas rs img g resultImg =
     (let fCtx = createCanvas (nat (canvasWidth g)) (nat (canvasHeight g));
          fCtx = drawImageScaled rs fCtx resultImg 0 0 (nat (canvasWidth g)) (nat (canvasHeight g));
          fCtx = drawImage fCtx img (offset_dx g) (offset_dy g)
      in canvas fCtx)"

definition outpaintPaddedCanvas :: "bitmap \<Rightarrow> geometry \<Rightarrow> bitmap" where
  \<comment> \<open>\<open>imageCanvas\<close>: black, with the source drawn at \<open>(dx, dy)\<close>\<close>
  "outpaintPaddedCanvas img g =
     (let imgCtx = createCanvas (nat (canvasWidth g)) (nat (canvasHeight g));
          imgCtx = imgCtx\<lparr>fillStyle := black\<rparr>;
          imgCtx = fillRect imgCtx 0 0 (canvasWidth g) (canvasHeight g);
          imgCtx = drawImage imgCtx img (offset_dx g) (offset_dy g)
      in canvas imgCtx)"

definition outpaintMaskCanvas :: "bitmap \<Rightarrow> geometry \<Rightarrow> bitmap" where
  \<comment> \<open>\<open>maskCanvas\<close>: white, with a black rectangle where the source is\<close>
  "outpaintMaskCanvas img g =
     (let maskCtx = createCanvas (nat (canvasWidth g)) (nat (canvasHeight g));
          maskCtx = maskCtx\<lparr>fillStyle := white\<rparr>;
          maskCtx = fillRect maskCtx 0 0 (canvasWidth g) (canvasHeight g);
          maskCtx = maskCtx\<lparr>fillStyle := black\<rparr>;
          maskCtx = fillRect maskCtx (offset_dx g) (offset_dy g)
                      (int (naturalWidth img)) (int (naturalHeight img))
      in canvas maskCtx)"

definition outpaintImage :: "env \<Rightarrow> SourceImage \<Rightarrow> rat \<Rightarrow> jsstring \<Rightarrow> error + jsstring option" where
  "outpaintImage E sourceImage targetAspectRatio prompt =
     (case loadImage E (sourceImageToDataUrl sourceImage) of
        Inl e \<Rightarrow> Inl e
      | Inr img \<Rightarrow>
          (let g = padGeometry (naturalWidth img) (naturalHeight img) targetAspectRatio;
               paddedBase64 =
                 secondPiece (toDataURL E (outpaintPaddedCanvas img g) (js ''image/png''));
               maskBase64 =
                 secondPiece (toDataURL E (outpaintMaskCanvas img g) (js ''image/png''))
           in case generateContent E paddedBase64 maskBase64 (js ''Outpaint Task: '' @ prompt) of
                Inl e \<Rightarrow> Inl e
              | Inr parts \<Rightarrow>
                  (case find hasInlineData parts of
                     Some (InlineDataPart mime payload) \<Rightarrow>
                       if payload = [] then Inr None
                       else (case loadImage E
                                    (js ''data:'' @ (if mime = [] then js ''image/png'' else mime)
                                       @ js '';base64,'' @ payload) of
                               Inl e \<Rightarrow> Inl e
                             | Inr resultImg \<Rightarrow>
                                 Inr (Some (toDataURL E
                                              (outpaintFinalCanvas (resample E) img g resultImg)
                                              (js ''image/png''))))
                   | _ \<Rightarrow> Inr None)))"

definition outpaintImage_rest :: "env \<Rightarrow> SourceImage \<Rightarrow> rat \<Rightarrow> jsstring \<Rightarrow> error + jsstring option" where
  \<comment> \<open>\<open>images[0] || null\<close>: nothing is drawn, the first image is handed back as it came\<close>
  "outpaintImage_rest E sourceImage targetAspectRatio prompt =
     (case generateImageRest E (js ''Outpaint/Extend: '' @ prompt) (js ''16:9'') 1 of
        [] \<Rightarrow> Inr None
      | i # _ \<Rightarrow> if i = [] then Inr None else Inr (Some i))"

section \<open>Sample bitmaps and a sample resampler\<close>

text \<open>
  A one-colour bitmap, and nearest-neighbour sampling as one resampler a browser may
  use. They serve to run the definitions on concrete inputs.
\<close>

definition solid :: "nat \<Rightarrow> nat \<Rightarrow> pixel \<Rightarrow> bitmap" where
  "solid w h p = \<lparr>naturalWidth = w, naturalHeight = h, pixelAt = (\<lambda>x y. p)\<rparr>"

definition nearest :: "bitmap \<Rightarrow> nat \<Rightarrow> nat \<Rightarrow> bitmap" where
  "nearest img w h =
     \<lparr>naturalWidth = w, naturalHeight = h,
      pixelAt = (\<lambda>x y. pixelAt img (x * naturalWidth img div w) (y * naturalHeight img div h))\<rparr>"

definition opaque_red :: pixel where
  "opaque_red = \<lparr>red = 1, green = 0, blue = 0, alpha = 1\<rparr>"

definition opaque_blue :: pixel where
  "opaque_blue = \<lparr>red = 0, green = 0, blue = 1, alpha = 1\<rparr>"

definition half_blue :: pixel where
  \<comment> \<open>blue at half opacity\<close>
  "half_blue = \<lparr>red = 0, green = 0, blue = 1 / 2, alpha = 1 / 2\<rparr>"

text \<open>
  What the theorems ask of a resampler: the result has the requested size, and an image
  whose alpha is the same everywhere keeps that alpha (every interpolation is an
  average of source pixels).
\<close>

definition uniformAlpha :: "rat \<Rightarrow> bitmap \<Rightarrow> bool" where
  "uniformAlpha a img \<longleftrightarrow>
     (\<forall>x<naturalWidth img. \<forall>y<naturalHeight img. alpha (pixelAt img x y) = a)"

definition resamplerOk :: "(bitmap \<Rightarrow> nat \<Rightarrow> nat \<Rightarrow> bitmap) \<Rightarrow> bool" where
  "resamplerOk rs \<longleftrightarrow>
     (\<forall>img w h. naturalWidth (rs img w h) = w \<and> naturalHeight (rs img w h) = h) \<and>
     (\<forall>img w h a. 0 < naturalWidth img \<and> 0 < naturalHeight img \<and> uniformAlpha a img
        \<longrightarrow> uniformAlpha a (rs img w h))"

definition sampleDecode :: "(jsstring \<times> bitmap) list \<Rightarrow> jsstring \<Rightarrow> error + bitmap" where
  \<comment> \<open>a decoder that knows the listed data URLs and rejects every other string\<close>
  "sampleDecode known src = (case map_of known src of Some b \<Rightarrow> Inr b | None \<Rightarrow> Inl LoadError)"

text \<open>
  An environment for running examples: the decoder and the remote model are given, the
  encoder answers with one fixed data URL, colours parse to white, the blur leaves the
  layer as it is, and the REST helper has no images.
\<close>

definition sampleEnv ::
  "(jsstring \<Rightarrow> error + bitmap) \<Rightarrow>
   (jsstring option \<Rightarrow> jsstring option \<Rightarrow> jsstring \<Rightarrow> error + part list) \<Rightarrow> env" where
  "sampleEnv decode remote =
     \<lparr>loadImage = decode, toDataURL = (\<lambda>b t. js ''data:image/png;base64,AAAA''),
      resample = nearest, parseColor = (\<lambda>s. white), blur = (\<lambda>r L. L),
      generateContent = remote, generateImageRest = (\<lambda>p a n. [])\<rparr>"

section \<open>Properties of the activation code\<close>

lemma js_admin_gmail:
  "js ''admin@gmail.com'' = [97, 100, 109, 105, 110, 64, 103, 109, 97, 105, 108, 46, 99, 111, 109]"
  by (simp add: js_def)

lemma trim_lower_admin_gmail:
  "trim (toLowerCase [97, 100, 109, 105, 110, 64, 103, 109, 97, 105, 108, 46, 99, 111, 109])
     = [97, 100, 109, 105, 110, 64, 103, 109, 97, 105, 108, 46, 99, 111, 109]"
  by (simp add: trim_def toLowerCase_def isWhiteSpace_def)

lemma hash_admin_gmail:
  "hashLoop 0 [97, 100, 109, 105, 110, 64, 103, 109, 97, 105, 108, 46, 99, 111, 109] = - 1343743360"
  by (simp add: bitand_self_def shl_def toInt32_def)

lemma code_of_admin_gmail_hash:
  "toString \<bar>js_rem (- 1343743360) 900000 + 100000\<bar> = [53, 54, 54, 52, 48]"
  by (simp add: toString_def js_rem_def toDigits.simps)

lemma toDigits_length_le: "0 < k \<Longrightarrow> n < 10 ^ k \<Longrightarrow> length (toDigits n) \<le> k"
proof (induction k arbitrary: n)
  case 0
  then show ?case by simp
next
  case (Suc k)
  show ?case
  proof (cases "n < 10")
    case True
    then show ?thesis by (subst toDigits.simps) simp
  next
    case False
    then have "0 < k" using Suc.prems(2) by (cases k) auto
    moreover have "n div 10 < 10 ^ k" using Suc.prems(2) by (simp add: less_mult_imp_div_less mult.commute)
    ultimately have "length (toDigits (n div 10)) \<le> k" by (rule Suc.IH)
    then show ?thesis using False by (subst toDigits.simps) simp
  qed
qed

lemma toDigits_length_gt: "10 ^ k \<le> n \<Longrightarrow> k < length (toDigits n)"
proof (induction k arbitrary: n)
  case 0
  then show ?case by (subst toDigits.simps) simp
next
  case (Suc k)
  then have "10 \<le> n" by (metis One_nat_def le_trans one_le_numeral one_le_power power_Suc mult.right_neutral mult_le_mono2)
  moreover have "10 ^ k \<le> n div 10" using Suc.prems by (simp add: less_eq_div_iff_mult_less_eq mult.commute)
  then have "k < length (toDigits (n div 10))" by (rule Suc.IH)
  ultimately show ?case by (subst toDigits.simps) simp
qed

lemma toDigits_six: "100000 \<le> n \<Longrightarrow> n < 1000000 \<Longrightarrow> length (toDigits n) = 6"
  using toDigits_length_le [of 6 n] toDigits_length_gt [of 5 n] by simp

lemma toDigits_short: "n < 100000 \<Longrightarrow> length (toDigits n) < 6"
  using toDigits_length_le [of 5 n] by simp

text \<open>
  When the code has six digits and when it has fewer: a hash that is not negative always
  gives six; a negative hash whose remainder lies strictly between \<open>-200000\<close> and 0
  gives fewer.
\<close>

lemma activation_code_length:
  assumes "email \<noteq> []"
  shows "(0 \<le> hashLoop 0 (trim (toLowerCase email)) \<longrightarrow> length (getActivationCode email) = 6) \<and>
         (- 200000 < js_rem (hashLoop 0 (trim (toLowerCase email))) 900000 \<and>
          js_rem (hashLoop 0 (trim (toLowerCase email))) 900000 < 0
            \<longrightarrow> length (getActivationCode email) < 6)"
proof -
  let ?h = "hashLoop 0 (trim (toLowerCase email))"
  let ?r = "js_rem ?h 900000"
  have code: "getActivationCode email = toDigits (nat \<bar>?r + 100000\<bar>)"
    using assms by (simp add: getActivationCode_def Let_def toString_def)
  have "length (toDigits (nat \<bar>?r + 100000\<bar>)) = 6" if "0 \<le> ?h"
  proof -
    have "0 \<le> ?r \<and> ?r < 900000"
      using that by (cases "?h = 0") (simp_all add: js_rem_def sgn_if)
    then show ?thesis by (intro toDigits_six) linarith+
  qed
  moreover have "length (toDigits (nat \<bar>?r + 100000\<bar>)) < 6" if "- 200000 < ?r \<and> ?r < 0"
    using that by (intro toDigits_short) linarith
  ultimately show ?thesis by (simp add: code)
qed

text \<open>
  C9. The activation code is meant to have six digits. For \<open>admin@gmail.com\<close> the hash
  is \<open>-1343743360\<close>, its remainder by 900000 is \<open>-43360\<close>, adding 100000 gives 56640, and
  the code is the five-character string \<open>56640\<close>: the absolute value is taken after the
  offset is added, so a negative remainder above \<open>-200000\<close> gives fewer than six digits.
\<close>

theorem activation_code_five_digits:
  "getActivationCode (js ''admin@gmail.com'') = js ''56640'' \<and>
   length (getActivationCode (js ''admin@gmail.com'')) = 5"
proof -
  have "getActivationCode (js ''admin@gmail.com'') = [53, 54, 54, 52, 48]"
    unfolding getActivationCode_def js_admin_gmail Let_def trim_lower_admin_gmail hash_admin_gmail
    by (simp add: code_of_admin_gmail_hash)
  moreover have "js ''56640'' = [53, 54, 54, 52, 48]"
    by (simp add: js_def)
  ultimately show ?thesis by simp
qed

section \<open>Properties of the data URL functions\<close>

lemma js_data: "js ''data:'' = [100, 97, 116, 97, 58]"
  by (simp add: js_def)

lemma js_base64: "js '';base64,'' = [59, 98, 97, 115, 101, 54, 52, 44]"
  by (simp add: js_def)

lemma split_no_sep: "sep \<notin> set s \<Longrightarrow> split sep s = [s]"
  by (induction s) auto

lemma split_at_sep: "sep \<notin> set a \<Longrightarrow> split sep (a @ sep # b) = a # split sep b"
  by (induction a) auto

lemma lazyToSemicolon_stop:
  "59 \<notin> set m \<Longrightarrow> \<forall>c\<in>set m. \<not> isLineTerminator c \<Longrightarrow>
   lazyToSemicolon (m @ 59 # rest) = Some m"
  by (induction m) auto

lemma lazyToSemicolon_none: "59 \<notin> set s \<Longrightarrow> lazyToSemicolon s = None"
  by (induction s) auto

lemma matchMime_no_colon: "58 \<notin> set s \<Longrightarrow> matchMime s = None"
  by (induction s) auto

lemma matchMime_no_semicolon: "59 \<notin> set s \<Longrightarrow> matchMime s = None"
  by (induction s) (auto simp: lazyToSemicolon_none)

lemma matchMime_header:
  assumes "59 \<notin> set m" "\<forall>c\<in>set m. \<not> isLineTerminator c"
  shows "matchMime ([100, 97, 116, 97, 58] @ m @ [59, 98, 97, 115, 101, 54, 52]) = Some m"
  using lazyToSemicolon_stop [OF assms, of "[98, 97, 115, 101, 54, 52]"] by simp

lemma dataUrl_roundtrip_aux:
  assumes "mimeType img \<noteq> []" "59 \<notin> set (mimeType img)" "44 \<notin> set (mimeType img)"
    "\<forall>c\<in>set (mimeType img). \<not> isLineTerminator c"
    "base64 img \<noteq> []" "44 \<notin> set (base64 img)"
  shows "dataUrlToSourceImage (sourceImageToDataUrl img) = Some img"
proof -
  let ?h = "[100, 97, 116, 97, 58] @ mimeType img @ [59, 98, 97, 115, 101, 54, 52]"
  have url: "sourceImageToDataUrl img = ?h @ 44 # base64 img"
    by (simp add: sourceImageToDataUrl_def js_data js_base64)
  have "44 \<notin> set ?h" using assms(3) by simp
  then have "split 44 (?h @ 44 # base64 img) = ?h # split 44 (base64 img)"
    by (rule split_at_sep)
  then have parts: "split 44 (sourceImageToDataUrl img) = [?h, base64 img]"
    using assms(6) by (simp add: url split_no_sep del: append.simps)
  have mime: "matchMime ?h = Some (mimeType img)"
    using assms(2,4) by (rule matchMime_header)
  show ?thesis
    unfolding dataUrlToSourceImage_def parts Let_def
    using assms(1,5) mime by (simp add: url)
qed

lemma split_nonempty: "split sep s \<noteq> []"
  by (induction s) (auto split: list.splits)

lemma split_unfold:
  "split sep s = takeWhile (\<lambda>c. c \<noteq> sep) s
     # (if sep \<in> set s then split sep (tl (dropWhile (\<lambda>c. c \<noteq> sep) s)) else [])"
proof (induction s)
  case Nil
  then show ?case by simp
next
  case (Cons c cs)
  then show ?case by (cases "split sep cs") (auto simp add: split_nonempty)
qed

lemma split_hd: "hd (split sep s) = takeWhile (\<lambda>c. c \<noteq> sep) s"
  by (subst split_unfold) simp

lemma split_second:
  "(case tl (split sep s) of [] \<Rightarrow> None | b # _ \<Rightarrow> Some b)
     = (if sep \<in> set s
        then Some (takeWhile (\<lambda>c. c \<noteq> sep) (tl (dropWhile (\<lambda>c. c \<noteq> sep) s)))
        else None)"
proof (cases "sep \<in> set s")
  case True
  have "tl (split sep s) = split sep (tl (dropWhile (\<lambda>c. c \<noteq> sep) s))"
    by (subst split_unfold) (simp add: True)
  also have "\<dots> = takeWhile (\<lambda>c. c \<noteq> sep) (tl (dropWhile (\<lambda>c. c \<noteq> sep) s))
      # (if sep \<in> set (tl (dropWhile (\<lambda>c. c \<noteq> sep) s))
         then split sep (tl (dropWhile (\<lambda>c. c \<noteq> sep) (tl (dropWhile (\<lambda>c. c \<noteq> sep) s)))) else [])"
    by (rule split_unfold)
  finally show ?thesis by (simp add: True)
next
  case False
  then show ?thesis by (subst split_unfold) simp
qed

lemma dataUrl_null_iff:
  "dataUrlToSourceImage s = None \<longleftrightarrow>
     s = [] \<or> 44 \<notin> set s \<or>
     takeWhile (\<lambda>c. c \<noteq> 44) (tl (dropWhile (\<lambda>c. c \<noteq> 44) s)) = [] \<or>
     matchMime (takeWhile (\<lambda>c. c \<noteq> 44) s) = None \<or>
     matchMime (takeWhile (\<lambda>c. c \<noteq> 44) s) = Some []"
  by (auto simp add: dataUrlToSourceImage_def Let_def split_hd split_second)

lemma dataUrl_some:
  "dataUrlToSourceImage s = Some img \<Longrightarrow>
     base64 img = takeWhile (\<lambda>c. c \<noteq> 44) (tl (dropWhile (\<lambda>c. c \<noteq> 44) s)) \<and>
     matchMime (takeWhile (\<lambda>c. c \<noteq> 44) s) = Some (mimeType img)"
  by (auto simp add: dataUrlToSourceImage_def Let_def split_hd split_second split: if_splits)

lemma lazyToSemicolon_Some_iff:
  "lazyToSemicolon s = Some m \<longleftrightarrow>
     (\<exists>b. s = m @ 59 # b \<and> 59 \<notin> set m \<and> (\<forall>c\<in>set m. \<not> isLineTerminator c))"
proof (induction s arbitrary: m)
  case Nil
  then show ?case by simp
next
  case (Cons c cs)
  show ?case
  proof (cases "c = 59")
    case True
    then show ?thesis by (cases m) auto
  next
    case False
    show ?thesis
    proof (cases "isLineTerminator c")
      case True
      then show ?thesis using False by (cases m) auto
    next
      case lt: False
      show ?thesis
        using False lt Cons.IH by (cases m) auto
    qed
  qed
qed

lemma matchMime_None_iff:
  "matchMime h = None \<longleftrightarrow>
     \<not> (\<exists>a m b. h = a @ 58 # m @ 59 # b \<and> 59 \<notin> set m \<and> (\<forall>c\<in>set m. \<not> isLineTerminator c))"
proof (induction h)
  case Nil
  then show ?case by simp
next
  case (Cons c cs)
  have ex: "(\<exists>a m b. c # cs = a @ 58 # m @ 59 # b \<and> 59 \<notin> set m \<and> (\<forall>c\<in>set m. \<not> isLineTerminator c))
        \<longleftrightarrow> (c = 58 \<and> (\<exists>m b. cs = m @ 59 # b \<and> 59 \<notin> set m \<and> (\<forall>c\<in>set m. \<not> isLineTerminator c)))
           \<or> (\<exists>a m b. cs = a @ 58 # m @ 59 # b \<and> 59 \<notin> set m \<and> (\<forall>c\<in>set m. \<not> isLineTerminator c))"
    (is "?L \<longleftrightarrow> ?A \<or> ?B")
  proof
    assume ?L
    then obtain a m b where h: "c # cs = a @ 58 # m @ 59 # b" "59 \<notin> set m" "\<forall>c\<in>set m. \<not> isLineTerminator c"
      by blast
    show "?A \<or> ?B"
    proof (cases a)
      case Nil
      then show ?thesis using h by auto
    next
      case (Cons a0 as)
      then have "cs = as @ 58 # m @ 59 # b" using h(1) by simp
      then show ?thesis using h(2,3) by blast
    qed
  next
    assume "?A \<or> ?B"
    then show ?L
    proof
      assume ?A
      then obtain m b where "c # cs = [] @ 58 # m @ 59 # b" "59 \<notin> set m" "\<forall>c\<in>set m. \<not> isLineTerminator c"
        by auto
      then show ?L by blast
    next
      assume ?B
      then obtain a m b where "c # cs = (c # a) @ 58 # m @ 59 # b" "59 \<notin> set m" "\<forall>c\<in>set m. \<not> isLineTerminator c"
        by auto
      then show ?L by blast
    qed
  qed
  have l: "(\<exists>m b. cs = m @ 59 # b \<and> 59 \<notin> set m \<and> (\<forall>c\<in>set m. \<not> isLineTerminator c))
       \<longleftrightarrow> lazyToSemicolon cs \<noteq> None"
    using lazyToSemicolon_Some_iff [of cs] by auto
  show ?case
    unfolding ex l using Cons.IH by (auto split: option.splits)
qed

lemma matchMime_empty_group:
  "58 \<notin> set a \<Longrightarrow> matchMime (a @ 58 # 59 # b) = Some []"
  by (induction a) auto

text \<open>
  C10, as stated, fails: an image whose \<open>mimeType\<close> is the empty string has no \<open>;\<close> and
  no \<open>,\<close> in it, yet \<open>data:;base64,AAAA\<close> is read back as \<open>null\<close>, because the
  captured media type is empty and the guard \<open>!mimeType\<close> rejects it.
\<close>

theorem dataUrl_roundtrip_empty_mime_counterexample:
  "59 \<notin> set (mimeType \<lparr>base64 = js ''AAAA'', mimeType = []\<rparr>) \<and>
   44 \<notin> set (mimeType \<lparr>base64 = js ''AAAA'', mimeType = []\<rparr>) \<and>
   base64 \<lparr>base64 = js ''AAAA'', mimeType = []\<rparr> \<noteq> [] \<and>
   44 \<notin> set (base64 \<lparr>base64 = js ''AAAA'', mimeType = []\<rparr>) \<and>
   dataUrlToSourceImage (sourceImageToDataUrl \<lparr>base64 = js ''AAAA'', mimeType = []\<rparr>)
     \<noteq> Some \<lparr>base64 = js ''AAAA'', mimeType = []\<rparr>"
proof -
  have "split 44 ([100, 97, 116, 97, 58, 59, 98, 97, 115, 101, 54, 52] @ 44 # [65, 65, 65, 65])
          = [[100, 97, 116, 97, 58, 59, 98, 97, 115, 101, 54, 52], [65, 65, 65, 65]]"
    by (subst split_at_sep) (simp_all add: split_no_sep)
  then have "dataUrlToSourceImage [100, 97, 116, 97, 58, 59, 98, 97, 115, 101, 54, 52, 44, 65, 65, 65, 65]
               = None"
    by (simp add: dataUrlToSourceImage_def)
  moreover have "sourceImageToDataUrl \<lparr>base64 = js ''AAAA'', mimeType = []\<rparr>
                   = [100, 97, 116, 97, 58, 59, 98, 97, 115, 101, 54, 52, 44, 65, 65, 65, 65]"
    by (simp add: sourceImageToDataUrl_def js_def)
  ultimately show ?thesis
    by (simp add: js_def)
qed

text \<open>
  C10, amended. For every \<open>SourceImage\<close> whose \<open>mimeType\<close> is non-empty and contains no
  \<open>;\<close>, no \<open>,\<close> and no line terminator, and whose \<open>base64\<close> payload is non-empty and
  contains no \<open>,\<close>, \<open>dataUrlToSourceImage (sourceImageToDataUrl img)\<close> returns \<open>img\<close>.
  \<open>dataUrlToSourceImage\<close> returns \<open>null\<close> exactly for the empty string, for a string
  without a comma, for a string with nothing between its first comma and the next
  comma or the end, and for a string whose part before the first comma has no
  parseable media type: the pattern \<open>:(.*?);\<close> finds nothing there, which means that no
  \<open>:\<close> is followed by a \<open>;\<close> with no line terminator in between, or it captures the empty
  string, as it does when the first \<open>:\<close> is directly followed by \<open>;\<close>. When the result is
  not \<open>null\<close>, its payload is the text between the first comma and the next, and its
  media type is what the pattern captures.
\<close>

theorem dataUrl_roundtrip:
  "(mimeType img \<noteq> [] \<and> 59 \<notin> set (mimeType img) \<and> 44 \<notin> set (mimeType img) \<and>
    (\<forall>c\<in>set (mimeType img). \<not> isLineTerminator c) \<and>
    base64 img \<noteq> [] \<and> 44 \<notin> set (base64 img)
    \<longrightarrow> dataUrlToSourceImage (sourceImageToDataUrl img) = Some img) \<and>
   (dataUrlToSourceImage s = None \<longleftrightarrow>
      s = [] \<or> 44 \<notin> set s \<or>
      takeWhile (\<lambda>c. c \<noteq> 44) (tl (dropWhile (\<lambda>c. c \<noteq> 44) s)) = [] \<or>
      matchMime (takeWhile (\<lambda>c. c \<noteq> 44) s) = None \<or>
      matchMime (takeWhile (\<lambda>c. c \<noteq> 44) s) = Some []) \<and>
   (matchMime h = None \<longleftrightarrow>
      \<not> (\<exists>a m b. h = a @ 58 # m @ 59 # b \<and> 59 \<notin> set m \<and> (\<forall>c\<in>set m. \<not> isLineTerminator c))) \<and>
   (58 \<notin> set a \<longrightarrow> matchMime (a @ 58 # 59 # b) = Some []) \<and>
   (dataUrlToSourceImage s = Some res \<longrightarrow>
      base64 res = takeWhile (\<lambda>c. c \<noteq> 44) (tl (dropWhile (\<lambda>c. c \<noteq> 44) s)) \<and>
      matchMime (takeWhile (\<lambda>c. c \<noteq> 44) s) = Some (mimeType res))"
  using dataUrl_roundtrip_aux [of img] dataUrl_null_iff [of s] matchMime_None_iff [of h]
    matchMime_empty_group [of a b] dataUrl_some [of s res]
  by blast

theorem dataUrl_roundtrip_witness:
  "dataUrlToSourceImage
     (sourceImageToDataUrl \<lparr>base64 = js ''AAAA'', mimeType = js ''image/png''\<rparr>)
     = Some \<lparr>base64 = js ''AAAA'', mimeType = js ''image/png''\<rparr> \<and>
   dataUrlToSourceImage [] = None \<and>
   dataUrlToSourceImage (js ''abc'') = None \<and>
   dataUrlToSourceImage (js ''data:image/png;base64,'') = None \<and>
   dataUrlToSourceImage (js ''data:image/png;base64,,AAAA'') = None \<and>
   dataUrlToSourceImage (js ''image/png,AAAA'') = None \<and>
   dataUrlToSourceImage (js '';:,AAAA'') = None \<and>
   dataUrlToSourceImage (js ''data:;base64,AAAA'') = None \<and>
   matchMime (js ''data:;base64'') = Some [] \<and>
   matchMime (js ''image/png'') = None"
proof -
  let ?i = "\<lparr>base64 = js ''AAAA'', mimeType = js ''image/png''\<rparr>"
  have 1: "dataUrlToSourceImage (sourceImageToDataUrl ?i) = Some ?i"
    using dataUrl_roundtrip [of ?i "[]" "[]" "[]" "[]" ?i] by (simp add: js_def isLineTerminator_def)
  have 2: "dataUrlToSourceImage [] = None"
    using dataUrl_roundtrip [of ?i "[]" "[]" "[]" "[]" ?i] by blast
  have 3: "dataUrlToSourceImage (js ''abc'') = None"
    using dataUrl_roundtrip [of ?i "js ''abc''" "[]" "[]" "[]" ?i] by (simp add: js_def)
  have 4: "dataUrlToSourceImage (js ''data:image/png;base64,'') = None"
    using dataUrl_roundtrip [of ?i "js ''data:image/png;base64,''" "[]" "[]" "[]" ?i]
    by (simp add: js_def)
  have 5: "dataUrlToSourceImage (js ''data:image/png;base64,,AAAA'') = None"
    using dataUrl_roundtrip [of ?i "js ''data:image/png;base64,,AAAA''" "[]" "[]" "[]" ?i]
    by (simp add: js_def)
  have 9: "matchMime (js ''image/png'') = None"
    using dataUrl_roundtrip [of ?i "[]" "js ''image/png''" "[]" "[]" ?i] by (simp add: js_def)
  have 6: "dataUrlToSourceImage (js ''image/png,AAAA'') = None"
    using dataUrl_roundtrip [of ?i "js ''image/png,AAAA''" "[]" "[]" "[]" ?i] 9
    by (simp add: js_def)
  have "matchMime (js '';:'') = None"
    using dataUrl_roundtrip [of ?i "[]" "js '';:''" "[]" "[]" ?i] by (simp add: js_def)
  then have 7: "dataUrlToSourceImage (js '';:,AAAA'') = None"
    using dataUrl_roundtrip [of ?i "js '';:,AAAA''" "[]" "[]" "[]" ?i]
    by (simp add: js_def)
  have 8: "matchMime (js ''data:;base64'') = Some []"
    using dataUrl_roundtrip [of ?i "[]" "[]" "js ''data''" "js ''base64''" ?i] by (simp add: js_def)
  then have 10: "dataUrlToSourceImage (js ''data:;base64,AAAA'') = None"
    using dataUrl_roundtrip [of ?i "js ''data:;base64,AAAA''" "[]" "[]" "[]" ?i]
    by (simp add: js_def)
  from 1 2 3 4 5 6 7 10 8 9 show ?thesis by (intro conjI)
qed

section \<open>Canvas lemmas\<close>

lemma floor_rat_numeral [simp]:
  "\<lfloor>(numeral a :: rat) / numeral b\<rfloor> = numeral a div numeral b"
  using floor_divide_of_int_eq [of "numeral a" "numeral b", where ?'a = rat] by simp

lemma floor_rat_one_numeral [simp]:
  "\<lfloor>(1 :: rat) / numeral b\<rfloor> = 1 div numeral b"
  using floor_divide_of_int_eq [of 1 "numeral b", where ?'a = rat] by simp

lemma Math_round_round: "Math_round x = round x"
  by (simp add: Math_round_def round_def)

lemma paint_size [simp]:
  "naturalWidth (canvas (paint ctx L)) = naturalWidth (canvas ctx)"
  "naturalHeight (canvas (paint ctx L)) = naturalHeight (canvas ctx)"
  by (simp_all add: paint_def Let_def)

lemma paint_state [simp]:
  "globalCompositeOperation (paint ctx L) = globalCompositeOperation ctx"
  "filter_of (paint ctx L) = filter_of ctx"
  "fillStyle (paint ctx L) = fillStyle ctx"
  by (simp_all add: paint_def Let_def)

lemma paint_pixel:
  "x < naturalWidth (canvas ctx) \<Longrightarrow> y < naturalHeight (canvas ctx) \<Longrightarrow> filter_of ctx = None \<Longrightarrow>
   pixelAt (canvas (paint ctx L)) x y
     = blend (globalCompositeOperation ctx) (L (int x) (int y)) (pixelAt (canvas ctx) x y)"
  by (simp add: paint_def Let_def)

lemma createCanvas_simps [simp]:
  "naturalWidth (canvas (createCanvas w h)) = w"
  "naturalHeight (canvas (createCanvas w h)) = h"
  "pixelAt (canvas (createCanvas w h)) x y = transparent"
  "globalCompositeOperation (createCanvas w h) = SourceOver"
  "filter_of (createCanvas w h) = None"
  by (simp_all add: createCanvas_def)

lemma drawImage_simps [simp]:
  "naturalWidth (canvas (drawImage ctx img dx dy)) = naturalWidth (canvas ctx)"
  "naturalHeight (canvas (drawImage ctx img dx dy)) = naturalHeight (canvas ctx)"
  "globalCompositeOperation (drawImage ctx img dx dy) = globalCompositeOperation ctx"
  "filter_of (drawImage ctx img dx dy) = filter_of ctx"
  by (simp_all add: drawImage_def)

lemma drawImageScaled_simps [simp]:
  "naturalWidth (canvas (drawImageScaled rs ctx img dx dy dw dh)) = naturalWidth (canvas ctx)"
  "naturalHeight (canvas (drawImageScaled rs ctx img dx dy dw dh)) = naturalHeight (canvas ctx)"
  "globalCompositeOperation (drawImageScaled rs ctx img dx dy dw dh) = globalCompositeOperation ctx"
  "filter_of (drawImageScaled rs ctx img dx dy dw dh) = filter_of ctx"
  by (simp_all add: drawImageScaled_def)

lemma fillRect_simps [simp]:
  "naturalWidth (canvas (fillRect ctx rx ry rw rh)) = naturalWidth (canvas ctx)"
  "naturalHeight (canvas (fillRect ctx rx ry rw rh)) = naturalHeight (canvas ctx)"
  "globalCompositeOperation (fillRect ctx rx ry rw rh) = globalCompositeOperation ctx"
  "filter_of (fillRect ctx rx ry rw rh) = filter_of ctx"
  by (simp_all add: fillRect_def)

lemma blend_over_transparent [simp]: "blend SourceOver s transparent = s"
  by (simp add: transparent_def blend.simps)

lemma blend_transparent_over [simp]: "blend SourceOver transparent d = d"
  by (simp add: transparent_def blend.simps)

lemma blend_opaque_over: "alpha s = 1 \<Longrightarrow> blend SourceOver s d = s"
  by (simp add: blend.simps)

lemma imageLayer_inside:
  "x < naturalWidth img \<Longrightarrow> y < naturalHeight img \<Longrightarrow>
   imageLayer img dx dy (dx + int x) (dy + int y) = pixelAt img x y"
  by (simp add: imageLayer_def)

lemma imageLayer_origin:
  "x < naturalWidth img \<Longrightarrow> y < naturalHeight img \<Longrightarrow>
   imageLayer img 0 0 (int x) (int y) = pixelAt img x y"
  by (simp add: imageLayer_def)

lemma fillRect_whole_pixel:
  assumes "filter_of ctx = None" "globalCompositeOperation ctx = SourceOver"
    "x < naturalWidth (canvas ctx)" "y < naturalHeight (canvas ctx)"
    "int (naturalWidth (canvas ctx)) \<le> rw" "int (naturalHeight (canvas ctx)) \<le> rh"
  shows "pixelAt (canvas (fillRect ctx 0 0 rw rh)) x y
           = blend SourceOver (fillStyle ctx) (pixelAt (canvas ctx) x y)"
proof -
  have "int x < rw" "int y < rh" using assms(3-6) by linarith+
  then show ?thesis
    unfolding fillRect_def using assms(1-4) by (simp add: paint_pixel)
qed

lemma drawImage_pixel_inside:
  assumes "filter_of ctx = None" "0 \<le> dx" "0 \<le> dy"
    "x < naturalWidth img" "y < naturalHeight img"
    "nat dx + x < naturalWidth (canvas ctx)" "nat dy + y < naturalHeight (canvas ctx)"
  shows "pixelAt (canvas (drawImage ctx img dx dy)) (nat dx + x) (nat dy + y)
           = blend (globalCompositeOperation ctx) (pixelAt img x y)
               (pixelAt (canvas ctx) (nat dx + x) (nat dy + y))"
  unfolding drawImage_def
  using assms by (simp add: paint_pixel imageLayer_inside)

section \<open>Properties of the number model\<close>

lemma expUp_bounds: "1 \<le> x \<Longrightarrow> 2 powi (expUp x) \<le> x \<and> x < 2 powi (expUp x + 1)"
proof (induction x rule: expUp.induct)
  case (1 x)
  show ?case
  proof (cases "2 \<le> x")
    case True
    define e where "e = expUp (x / 2)"
    have "1 \<le> x / 2" using True by simp
    with "1.IH" True have ih: "2 powi e \<le> x / 2" "x / 2 < 2 powi (e + 1)"
      by (simp_all add: e_def)
    have ex: "expUp x = e + 1" using True by (subst expUp.simps) (simp add: e_def)
    have p1: "(2::rat) powi (e + 1) = 2 powi e * 2" by (rule power_int_add_1) simp
    have p2: "(2::rat) powi (e + 1 + 1) = 2 powi (e + 1) * 2" by (rule power_int_add_1) simp
    have "2 powi (e + 1) \<le> x" unfolding p1 using ih(1) by simp
    moreover have "x < 2 powi (e + 1 + 1)" unfolding p2 using ih(2) by simp
    ultimately show ?thesis unfolding ex by simp
  next
    case False
    then have e: "expUp x = 0" by (subst expUp.simps) simp
    show ?thesis using False "1.prems" by (simp add: e)
  qed
qed

lemma expDown_bounds: "0 < x \<Longrightarrow> x < 1 \<Longrightarrow> 2 powi (expDown x) \<le> x \<and> x < 2 powi (expDown x + 1)"
proof (induction x rule: expDown.induct)
  case (1 x)
  define e where "e = expDown (x * 2)"
  have ex: "expDown x = e - 1" using "1.prems" by (subst expDown.simps) (simp add: e_def)
  have p0: "(2::rat) powi e = 2 powi (e - 1) * 2"
    using power_int_add_1 [of "2::rat" "e - 1"] by simp
  show ?case
  proof (cases "x * 2 < 1")
    case True
    with "1.IH" "1.prems" have ih: "2 powi e \<le> x * 2" "x * 2 < 2 powi (e + 1)"
      by (simp_all add: e_def)
    have p1: "(2::rat) powi (e + 1) = 2 powi e * 2" by (rule power_int_add_1) simp
    have "2 powi (e - 1) \<le> x" using ih(1) unfolding p0 by simp
    moreover have "x < 2 powi e" using ih(2) unfolding p1 by simp
    ultimately show ?thesis unfolding ex by simp
  next
    case False
    then have "e = 0" unfolding e_def by (subst expDown.simps) simp
    then have e': "expDown x = -1" using ex by simp
    show ?thesis using False "1.prems" by (simp add: e' power_int_minus)
  qed
qed

lemma exponent_bounds:
  assumes "0 < x"
  shows "2 powi (exponent x) \<le> x" "x < 2 powi (exponent x + 1)"
  using assms expUp_bounds [of x] expDown_bounds [of x]
  by (auto simp add: exponent_def not_le)

lemma roundHalfEven_near: "\<bar>of_int (roundHalfEven y) - y\<bar> \<le> 1 / 2"
proof -
  have "of_int \<lfloor>y\<rfloor> \<le> y" "y < of_int \<lfloor>y\<rfloor> + 1" by linarith+
  then show ?thesis
    by (auto simp add: roundHalfEven_def Let_def abs_le_iff)
qed

lemma fl_pos_error:
  assumes "0 < x"
  shows "\<bar>fl x - x\<bar> \<le> x / 2 ^ 53"
proof -
  define u :: rat where "u = 2 powi (exponent x - 52)"
  have upos: "0 < u" by (simp add: u_def)
  have u53: "u * 2 ^ 52 = 2 powi (exponent x)"
    using power_int_add [of "2::rat" "exponent x - 52" 52] by (simp add: u_def)
  then have ux: "u * 2 ^ 52 \<le> x" using exponent_bounds(1) [OF assms] by simp
  have fl: "fl x = of_int (roundHalfEven (x / u)) * u"
    using assms by (simp add: fl_def u_def Let_def)
  have "fl x - x = (of_int (roundHalfEven (x / u)) - x / u) * u"
    using upos by (simp add: fl left_diff_distrib)
  then have "\<bar>fl x - x\<bar> = \<bar>of_int (roundHalfEven (x / u)) - x / u\<bar> * u"
    using upos by (simp add: abs_mult)
  also have "\<dots> \<le> (1 / 2) * u"
    using roundHalfEven_near [of "x / u"] upos by (intro mult_right_mono) simp_all
  also have "\<dots> \<le> x / 2 ^ 53" using ux by (simp add: field_simps)
  finally show ?thesis .
qed

lemma fl_minus: "fl (- x) = - fl x"
  by (simp add: fl_def Let_def)

lemma fl_error: "\<bar>fl x - x\<bar> \<le> \<bar>x\<bar> / 2 ^ 53"
proof (cases "x = 0")
  case True
  then show ?thesis by (simp add: fl_def)
next
  case False
  show ?thesis
  proof (cases "0 < x")
    case True
    then show ?thesis using fl_pos_error [of x] by simp
  next
    case False
    with \<open>x \<noteq> 0\<close> have "0 < - x" by simp
    from fl_pos_error [OF this] show ?thesis using False by (simp add: fl_minus)
  qed
qed

lemma fl_nonneg: "0 \<le> x \<Longrightarrow> 0 \<le> fl x"
proof -
  assume x: "0 \<le> x"
  define d where "d = x / 2 ^ 53"
  have "d \<le> x" using x by (simp add: d_def divide_le_eq)
  moreover have "\<bar>fl x - x\<bar> \<le> d" using fl_error [of x] x by (simp add: d_def)
  ultimately show ?thesis by linarith
qed

lemma fl_bounds:
  assumes "0 \<le> x"
  shows "9007199254740991 * x \<le> 9007199254740992 * fl x"
    and "9007199254740992 * fl x \<le> 9007199254740993 * x"
proof -
  define d where "d = x / 2 ^ 53"
  have d: "d * 9007199254740992 = x" by (simp add: d_def)
  have "\<bar>fl x - x\<bar> \<le> d" using fl_error [of x] assms by (simp add: d_def)
  then have "x - d \<le> fl x" "fl x \<le> x + d" by linarith+
  then show "9007199254740991 * x \<le> 9007199254740992 * fl x"
    and "9007199254740992 * fl x \<le> 9007199254740993 * x"
    using d by linarith+
qed

lemma fl_abs_le: "\<bar>fl x\<bar> \<le> 2 * \<bar>x\<bar>"
proof -
  define d where "d = \<bar>x\<bar> / 2 ^ 53"
  have "d \<le> \<bar>x\<bar>" by (simp add: d_def divide_le_eq)
  moreover have "\<bar>fl x - x\<bar> \<le> d" using fl_error [of x] by (simp add: d_def)
  ultimately show ?thesis by linarith
qed

text \<open>Evaluating \<open>fl\<close> on a given rational.\<close>

text \<open>
  A value \<open>m * 2^k\<close> with \<open>m < 2^53\<close> is a binary64 value: rounding leaves it as it is. So
  integers and half-integers below \<open>2^53\<close> are exact.
\<close>

lemma roundHalfEven_of_int: "roundHalfEven (of_int j) = j"
  by (simp add: roundHalfEven_def)

lemma fl_exact:
  assumes x: "\<bar>x\<bar> = of_nat m * 2 powi k" and m: "m < 2 ^ 53"
  shows "fl x = x"
proof (cases "x = 0")
  case True
  then show ?thesis by (simp add: fl_def)
next
  case False
  define a where "a = \<bar>x\<bar>"
  define e where "e = exponent a"
  define u :: rat where "u = 2 powi (e - 52)"
  have a: "0 < a" using False by (simp add: a_def)
  have upos: "0 < u" by (simp add: u_def)
  have lo: "2 powi e \<le> a" unfolding e_def by (rule exponent_bounds(1) [OF a])
  have "(of_nat m :: rat) < of_nat (2 ^ 53)" using m by (simp only: of_nat_less_iff)
  then have mlt: "(of_nat m :: rat) < 2 powi 53" by simp
  have "a < 2 powi 53 * 2 powi k"
    unfolding a_def x by (rule mult_strict_right_mono [OF mlt]) simp
  then have hi: "a < 2 powi (53 + k)" by (simp add: power_int_add)
  have "e < 53 + k"
  proof (rule ccontr)
    assume "\<not> e < 53 + k"
    then have "53 + k \<le> e" by simp
    then have "(2::rat) powi (53 + k) \<le> 2 powi e" by (intro power_int_increasing) simp_all
    with lo hi show False by linarith
  qed
  define n where "n = nat (k - e + 52)"
  have n: "k = e - 52 + int n" using \<open>e < 53 + k\<close> by (simp add: n_def)
  have "2 powi k = u * (2::rat) ^ n"
    unfolding n u_def by (simp add: power_int_add)
  then have q: "a / u = of_int (int (m * 2 ^ n))"
    using upos by (simp add: a_def x)
  have "fl x = sgn x * (of_int (roundHalfEven (a / u)) * u)"
    using False by (simp add: fl_def Let_def a_def e_def u_def)
  also have "\<dots> = sgn x * (a / u * u)"
    unfolding q roundHalfEven_of_int ..
  also have "\<dots> = sgn x * a" using upos by simp
  also have "\<dots> = x" by (simp add: a_def sgn_mult_abs)
  finally show ?thesis .
qed

lemma fl_of_int:
  assumes "\<bar>j\<bar> < 2 ^ 53"
  shows "fl (of_int j) = of_int j"
proof -
  have "nat \<bar>j\<bar> < nat (2 ^ 53)" using assms by (simp only: nat_less_eq_zless abs_ge_zero)
  then have "nat \<bar>j\<bar> < 2 ^ 53" by simp
  moreover have "\<bar>rat_of_int j\<bar> = of_nat (nat \<bar>j\<bar>) * 2 powi 0" by simp
  ultimately show ?thesis by (rule fl_exact [rotated])
qed

lemma fl_half_of_int:
  assumes "\<bar>j\<bar> < 2 ^ 53"
  shows "fl (of_int j / 2) = of_int j / 2"
proof -
  have "nat \<bar>j\<bar> < nat (2 ^ 53)" using assms by (simp only: nat_less_eq_zless abs_ge_zero)
  then have "nat \<bar>j\<bar> < 2 ^ 53" by simp
  moreover have "\<bar>rat_of_int j / 2\<bar> = of_nat (nat \<bar>j\<bar>) * 2 powi (- 1)"
    by (simp add: power_int_minus)
  ultimately show ?thesis by (rule fl_exact [rotated])
qed

lemmas fl_eval = fl_def exponent_def expUp.simps expDown.simps roundHalfEven_def Let_def

lemma fl_small_integers:
  "fl 1 = 1" "fl 2 = 2" "fl 3 = 3" "fl (3 / 2) = 3 / 2" "fl (1 / 2) = 1 / 2"
  by (simp_all add: fl_eval)

lemma fl_literals:
  "fl (7 / 10) = 3152519739159347 / 4503599627370496"
  "fl (1333 / 1000) = 6003298303284871 / 4503599627370496"
  "fl (1777 / 1000) = 8002896537837371 / 4503599627370496"
  "fl (75 / 100) = 3 / 4"
  "fl (5625 / 10000) = 9 / 16"
  by (simp_all add: fl_eval)

section \<open>The sample bitmaps and the sample environment\<close>

lemma solid_simps:
  "naturalWidth (solid w h p) = w" "naturalHeight (solid w h p) = h" "pixelAt (solid w h p) x y = p"
  by (simp_all add: solid_def)

lemma uniformAlpha_solid: "uniformAlpha (alpha p) (solid w h p)"
  by (simp add: uniformAlpha_def solid_def)

lemma sampleEnv_simps:
  "loadImage (sampleEnv decode remote) = decode"
  "resample (sampleEnv decode remote) = nearest"
  "toDataURL (sampleEnv decode remote) b t = js ''data:image/png;base64,AAAA''"
  "parseColor (sampleEnv decode remote) s = white"
  "generateContent (sampleEnv decode remote) = remote"
  "generateImageRest (sampleEnv decode remote) p a n = []"
  by (simp_all add: sampleEnv_def)

lemma png_AAAA:
  "dataUrlToSourceImage (js ''data:image/png;base64,AAAA'')
     = Some \<lparr>base64 = js ''AAAA'', mimeType = js ''image/png''\<rparr>"
proof -
  have "sourceImageToDataUrl \<lparr>base64 = js ''AAAA'', mimeType = js ''image/png''\<rparr>
          = js ''data:image/png;base64,AAAA''"
    by (simp add: sourceImageToDataUrl_def js_def)
  then show ?thesis
    using dataUrl_roundtrip_aux [of "\<lparr>base64 = js ''AAAA'', mimeType = js ''image/png''\<rparr>"]
    by (simp add: js_def isLineTerminator_def)
qed

lemma png_BBBB:
  "dataUrlToSourceImage (js ''data:image/png;base64,BBBB'')
     = Some \<lparr>base64 = js ''BBBB'', mimeType = js ''image/png''\<rparr>"
proof -
  have "sourceImageToDataUrl \<lparr>base64 = js ''BBBB'', mimeType = js ''image/png''\<rparr>
          = js ''data:image/png;base64,BBBB''"
    by (simp add: sourceImageToDataUrl_def js_def)
  then show ?thesis
    using dataUrl_roundtrip_aux [of "\<lparr>base64 = js ''BBBB'', mimeType = js ''image/png''\<rparr>"]
    by (simp add: js_def isLineTerminator_def)
qed

section \<open>Properties of the padding geometry\<close>

lemma padCanvas_width:
  "naturalWidth (padCanvas img r c)
     = nat (canvasWidth (padGeometry (naturalWidth img) (naturalHeight img) r))"
  by (simp add: padCanvas_def Let_def)

lemma padCanvas_height:
  "naturalHeight (padCanvas img r c)
     = nat (canvasHeight (padGeometry (naturalWidth img) (naturalHeight img) r))"
  by (simp add: padCanvas_def Let_def)

lemma padCanvas_pixel:
  assumes "X < naturalWidth (padCanvas img r c)" "Y < naturalHeight (padCanvas img r c)"
    and g: "g = padGeometry (naturalWidth img) (naturalHeight img) r"
  shows "pixelAt (padCanvas img r c) X Y
           = blend SourceOver (imageLayer img (offset_dx g) (offset_dy g) (int X) (int Y)) c"
proof -
  let ?c0 = "(createCanvas (nat (canvasWidth g)) (nat (canvasHeight g)))\<lparr>fillStyle := c\<rparr>"
  let ?c1 = "fillRect ?c0 0 0 (int (naturalWidth (canvas ?c0))) (int (naturalHeight (canvas ?c0)))"
  have inx: "X < nat (canvasWidth g)" using assms(1) by (simp add: padCanvas_width g)
  have iny: "Y < nat (canvasHeight g)" using assms(2) by (simp add: padCanvas_height g)
  have p1: "pixelAt (canvas ?c1) X Y = c"
    using inx iny by (subst fillRect_whole_pixel) simp_all
  have d: "pixelAt (canvas (drawImage ?c1 img (offset_dx g) (offset_dy g))) X Y
          = blend (globalCompositeOperation ?c1)
              (imageLayer img (offset_dx g) (offset_dy g) (int X) (int Y)) (pixelAt (canvas ?c1) X Y)"
    unfolding drawImage_def by (rule paint_pixel) (use inx iny in simp_all)
  have g1: "globalCompositeOperation ?c1 = SourceOver" by simp
  show ?thesis
    unfolding padCanvas_def Let_def g [symmetric] by (simp only: d g1 p1)
qed

lemma padImage_result:
  assumes "loadImage E (sourceImageToDataUrl simage) = Inr img"
  shows "padImageToAspectRatioWithColor E simage r color
           = Inr (dataUrlToSourceImage
                    (toDataURL E (padCanvas img r (parseColor E color)) (js ''image/png'')))"
  using assms by (simp add: padImageToAspectRatioWithColor_def)

text \<open>The binary64 values that the examples below run into.\<close>

lemma fl_0: "fl 0 = 0"
  by (simp add: fl_def)

lemma fl_integers:
  "fl 200 = 200" "fl 100 = 100" "fl 50 = 50" "fl 41 = 41" "fl 102 = 102" "fl 21 = 21"
  "fl 389 = 389"
  by (simp_all add: fl_eval)

lemma fl_halves:
  "fl (101 / 2) = 101 / 2" "fl (41 / 2) = 41 / 2" "fl (21 / 2) = 21 / 2"
  "fl (389 / 2) = 389 / 2"
  by (simp_all add: fl_eval)

lemma fl_quotients:
  "2 < fl (101 / 10)" "\<not> 2 < fl (101 / 51)"
  "\<not> 3152519739159347 < fl (2 / 9) * 4503599627370496"
  "3 < fl (10 / 3)" "3 < fl (100 / 33)" "\<lfloor>fl (100 / 3) + 1 / 2\<rfloor> = 33"
  by (simp_all add: fl_eval)

lemma fl_products:
  "fl (141863388262170615 / 4503599627370496) = 8866461766385663 / 281474976710656"
  "fl (1000362067229671375 / 1125899906842624) = 1777 / 2"
  by (simp_all add: fl_eval)

lemmas geometry_eval = padGeometry_def jsDiv_def jsMul_def jsSub_def Math_round_def
  fl_0 fl_small_integers fl_integers fl_halves fl_quotients fl_products

lemma padGeometry_200_100:
  "padGeometry 200 100 1 = \<lparr>canvasWidth = 200, canvasHeight = 200, offset_dx = 0, offset_dy = 50\<rparr>"
  by (simp add: geometry_eval)

lemma padGeometry_101_10:
  "padGeometry 101 10 2 = \<lparr>canvasWidth = 101, canvasHeight = 51, offset_dx = 0, offset_dy = 21\<rparr>"
  by (simp add: geometry_eval)

lemma padGeometry_101_51:
  "padGeometry 101 51 2 = \<lparr>canvasWidth = 102, canvasHeight = 51, offset_dx = 1, offset_dy = 0\<rparr>"
  by (simp add: geometry_eval)

text \<open>
  Two inputs where rounding the product to a binary64 value decides the result:
  \<open>45 * 0.7\<close> is \<open>31.499999999999996\<close>, below the half, and \<open>500 * 1.777\<close> is \<open>888.5\<close>,
  although the exact product of 500 and the binary64 value of \<open>1.777\<close> is below \<open>888.5\<close>.
\<close>

lemma padGeometry_10_45:
  "padGeometry 10 45 (fl (7 / 10))
     = \<lparr>canvasWidth = 31, canvasHeight = 45, offset_dx = 11, offset_dy = 0\<rparr>"
  unfolding fl_literals by (simp add: geometry_eval)

lemma padGeometry_500_500:
  "padGeometry 500 500 (fl (1777 / 1000))
     = \<lparr>canvasWidth = 889, canvasHeight = 500, offset_dx = 195, offset_dy = 0\<rparr>"
  unfolding fl_literals by (simp add: geometry_eval)

lemma padGeometry_100_30:
  "padGeometry 100 30 3 = \<lparr>canvasWidth = 100, canvasHeight = 33, offset_dx = 0, offset_dy = 2\<rparr>"
  by (simp add: geometry_eval)

lemma padGeometry_100_33:
  "padGeometry 100 33 3 = \<lparr>canvasWidth = 100, canvasHeight = 33, offset_dx = 0, offset_dy = 0\<rparr>"
  by (simp add: geometry_eval)

text \<open>
  The padded side is never shorter than the source side, and the offset keeps the
  source on the canvas. Only the rounding error bound of \<open>fl\<close> is used.
\<close>

lemma padded_height_covers:
  assumes lt: "r < jsDiv (of_nat w) (of_nat h)" and h: "0 < h" "h \<le> 2 ^ 51" and r: "0 < r"
  shows "int h \<le> Math_round (jsDiv (of_nat w) r)"
proof -
  define q :: rat where "q = of_nat w / of_nat h"
  define a :: rat where "a = of_nat w / r"
  define H :: rat where "H = of_nat h"
  have Hpos: "0 < H" using h by (simp add: H_def)
  have "(of_nat h :: rat) \<le> of_nat (2 ^ 51)" using h(2) by (rule of_nat_mono)
  then have Hle: "H \<le> 2251799813685248" by (simp add: H_def)
  have q0: "0 \<le> q" by (simp add: q_def)
  have a0: "0 \<le> a" using r by (simp add: a_def)
  have "9007199254740992 * fl q \<le> 9007199254740993 * q" by (rule fl_bounds(2) [OF q0])
  with lt have 1: "9007199254740992 * r < 9007199254740993 * q"
    by (simp add: jsDiv_def q_def)
  have "(9007199254740992 * r) * (H / r) < (9007199254740993 * q) * (H / r)"
    by (rule mult_strict_right_mono [OF 1]) (use Hpos r in simp)
  moreover have "q * (H / r) = a" using Hpos r by (simp add: q_def a_def H_def)
  ultimately have 2: "9007199254740992 * H < 9007199254740993 * a"
    using r by (simp add: mult.assoc)
  have 3: "9007199254740991 * a \<le> 9007199254740992 * fl a" by (rule fl_bounds(1) [OF a0])
  have "H \<le> fl a + 1 / 2" using 2 3 Hle by linarith
  then show ?thesis
    by (simp add: Math_round_def jsDiv_def le_floor_iff a_def H_def)
qed

lemma padded_width_covers:
  assumes le: "\<not> r < jsDiv (of_nat w) (of_nat h)" and h: "0 < h" and w: "w \<le> 2 ^ 51"
  shows "int w \<le> Math_round (jsMul (of_nat h) r)"
proof -
  define q :: rat where "q = of_nat w / of_nat h"
  define b :: rat where "b = of_nat h * r"
  define H :: rat where "H = of_nat h"
  define W :: rat where "W = of_nat w"
  have Hpos: "0 < H" using h by (simp add: H_def)
  have "(of_nat w :: rat) \<le> of_nat (2 ^ 51)" using w by (rule of_nat_mono)
  then have Wle: "W \<le> 2251799813685248" by (simp add: W_def)
  have q0: "0 \<le> q" by (simp add: q_def)
  have "9007199254740991 * q \<le> 9007199254740992 * fl q" by (rule fl_bounds(1) [OF q0])
  with le have 1: "9007199254740991 * q \<le> 9007199254740992 * r"
    by (simp add: jsDiv_def q_def)
  have r0: "0 \<le> r" using 1 q0 by linarith
  have b0: "0 \<le> b" using r0 by (simp add: b_def)
  have "(9007199254740991 * q) * H \<le> (9007199254740992 * r) * H"
    by (rule mult_right_mono [OF 1]) (use Hpos in simp)
  moreover have "q * H = W" using Hpos by (simp add: q_def H_def W_def)
  moreover have "r * H = b" by (simp add: b_def H_def)
  ultimately have 2: "9007199254740991 * W \<le> 9007199254740992 * b"
    by (simp add: mult.assoc)
  have 3: "9007199254740991 * b \<le> 9007199254740992 * fl b" by (rule fl_bounds(1) [OF b0])
  have "W \<le> fl b + 1 / 2" using 2 3 Wle by linarith
  then show ?thesis
    by (simp add: Math_round_def jsMul_def le_floor_iff b_def W_def)
qed

lemma centred_offset:
  assumes "b \<le> a"
  shows "0 \<le> Math_round (jsDiv (jsSub (of_int a) (of_int b)) 2)"
    and "Math_round (jsDiv (jsSub (of_int a) (of_int b)) 2) + b \<le> a"
proof -
  define x :: rat where "x = of_int a - of_int b"
  define y :: rat where "y = fl x / 2"
  have x0: "0 \<le> x" using assms by (simp add: x_def)
  have fx0: "0 \<le> fl x" by (rule fl_nonneg [OF x0])
  have y0: "0 \<le> y" using fx0 by (simp add: y_def)
  have fy0: "0 \<le> fl y" by (rule fl_nonneg [OF y0])
  have 1: "9007199254740992 * fl x \<le> 9007199254740993 * x" by (rule fl_bounds(2) [OF x0])
  have 2: "9007199254740992 * fl y \<le> 9007199254740993 * y" by (rule fl_bounds(2) [OF y0])
  have y: "2 * y = fl x" by (simp add: y_def)
  have m: "Math_round (jsDiv (jsSub (of_int a) (of_int b)) 2) = \<lfloor>fl y + 1 / 2\<rfloor>"
    by (simp add: Math_round_def jsDiv_def jsSub_def y_def x_def)
  show "0 \<le> Math_round (jsDiv (jsSub (of_int a) (of_int b)) 2)"
    unfolding m using fy0 by simp
  have "fl y + 1 / 2 < x + 1" using 1 2 y x0 by linarith
  then have "fl y + 1 / 2 < of_int (a - b + 1)" by (simp add: x_def)
  then have "\<lfloor>fl y + 1 / 2\<rfloor> < a - b + 1" by (simp only: floor_less_iff)
  then show "Math_round (jsDiv (jsSub (of_int a) (of_int b)) 2) + b \<le> a"
    unfolding m by simp
qed

lemma padGeometry_fits:
  assumes "0 < h" "w \<le> 2 ^ 51" "h \<le> 2 ^ 51" "0 < r"
    and g: "g = padGeometry w h r"
  shows "int w \<le> canvasWidth g" "int h \<le> canvasHeight g"
    "0 \<le> offset_dx g" "0 \<le> offset_dy g"
    "offset_dx g + int w \<le> canvasWidth g" "offset_dy g + int h \<le> canvasHeight g"
proof -
  show "int w \<le> canvasWidth g" "int h \<le> canvasHeight g"
    using padded_height_covers [of r w h] padded_width_covers [of r w h] assms
    by (simp_all add: padGeometry_def Let_def)
  show "0 \<le> offset_dx g" "0 \<le> offset_dy g"
    "offset_dx g + int w \<le> canvasWidth g" "offset_dy g + int h \<le> canvasHeight g"
    using padded_height_covers [of r w h] padded_width_covers [of r w h] assms
      centred_offset [of "int h" "Math_round (jsDiv (of_nat w) r)"]
      centred_offset [of "int w" "Math_round (jsMul (of_nat h) r)"]
    by (simp_all add: padGeometry_def Let_def)
qed

text \<open>
  Inside the range of \<open>inRange\<close> the canvas sides stay below \<open>2^52\<close>, so the difference
  of the sides and its half are computed exactly: only the quotients \<open>w / h\<close>, \<open>w / r\<close>
  and the product \<open>h * r\<close> are rounded.
\<close>

lemma Math_round_near: "\<bar>of_int (Math_round y) - y\<bar> \<le> 1 / 2"
  unfolding Math_round_def by linarith

lemma rounded_error:
  assumes "0 \<le> x"
  shows "\<bar>of_int (Math_round (fl x)) - x\<bar> \<le> 1 / 2 + x / 2 ^ 53"
proof -
  define d where "d = x / 2 ^ 53"
  have "\<bar>fl x - x\<bar> \<le> d" using fl_error [of x] assms by (simp add: d_def)
  moreover have "\<bar>of_int (Math_round (fl x)) - fl x\<bar> \<le> 1 / 2" by (rule Math_round_near)
  ultimately have "\<bar>of_int (Math_round (fl x)) - x\<bar> \<le> 1 / 2 + d" by linarith
  then show ?thesis by (simp only: d_def)
qed

lemma Math_round_fl_bounds:
  assumes "0 \<le> x" "x \<le> 2 ^ 48"
  shows "0 \<le> Math_round (fl x)" "Math_round (fl x) < 2 ^ 52"
proof -
  have f: "0 \<le> fl x" by (rule fl_nonneg [OF assms(1)])
  then show "0 \<le> Math_round (fl x)" by (simp add: Math_round_def)
  have "fl x \<le> 2 * x" using fl_abs_le [of x] assms(1) by simp
  then have "fl x + 1 / 2 < 4503599627370496" using assms(2) by simp
  then have "fl x + 1 / 2 < of_int 4503599627370496" by simp
  then have "\<lfloor>fl x + 1 / 2\<rfloor> < 4503599627370496" by (simp only: floor_less_iff)
  then show "Math_round (fl x) < 2 ^ 52" by (simp add: Math_round_def)
qed

lemma inRange_bounds:
  assumes "inRange w h r"
  shows "0 < r" "0 \<le> of_nat w / r" "of_nat w / r \<le> 2 ^ 48" "0 \<le> of_nat h * r" "of_nat h * r \<le> 2 ^ 48"
    "w \<le> 2 ^ 51" "h \<le> 2 ^ 51" "0 < h" "int w < 2 ^ 24" "int h < 2 ^ 24"
proof -
  have r: "1 / 2 ^ 24 \<le> r" "r \<le> 2 ^ 24" and w: "w < 2 ^ 24" and h: "h < 2 ^ 24" "0 < h"
    using assms by (simp_all add: inRange_def)
  show rpos: "0 < r" using r(1) by (simp add: less_le_trans [of 0 "1 / 2 ^ 24"])
  have W: "(of_nat w :: rat) \<le> 2 ^ 24" using w by (metis less_imp_le of_nat_le_iff of_nat_numeral of_nat_power)
  have H: "(of_nat h :: rat) \<le> 2 ^ 24" using h(1) by (metis less_imp_le of_nat_le_iff of_nat_numeral of_nat_power)
  show "0 \<le> of_nat w / r" using rpos by simp
  show "0 \<le> of_nat h * r" using rpos by simp
  have "of_nat w / r \<le> 2 ^ 24 / (1 / 2 ^ 24)"
    by (rule frac_le) (use W r in simp_all)
  then show "of_nat w / r \<le> 2 ^ 48" by simp
  have "of_nat h * r \<le> 2 ^ 24 * 2 ^ 24"
    by (rule mult_mono) (use H r rpos in simp_all)
  then show "of_nat h * r \<le> 2 ^ 48" by simp
  show "w \<le> 2 ^ 51" "h \<le> 2 ^ 51" using w h by simp_all
  show "0 < h" by (rule h(2))
  show "int w < 2 ^ 24" "int h < 2 ^ 24" using w h(1) by simp_all
qed

lemma offset_exact:
  assumes "\<bar>a - b\<bar> < 2 ^ 53"
  shows "Math_round (jsDiv (jsSub (of_int a) (of_int b)) 2) = Math_round (of_int (a - b) / 2)"
proof -
  have "jsSub (of_int a) (of_int b) = fl (of_int (a - b))" by (simp add: jsSub_def)
  also have "\<dots> = of_int (a - b)" by (rule fl_of_int [OF assms])
  finally have "jsDiv (jsSub (of_int a) (of_int b)) 2 = fl (of_int (a - b) / 2)"
    by (simp add: jsDiv_def)
  also have "\<dots> = of_int (a - b) / 2" by (rule fl_half_of_int [OF assms])
  finally show ?thesis by (simp only:)
qed

lemma padGeometry_exact_offsets:
  assumes "inRange w h r"
  shows "padGeometry w h r =
     (if r < jsDiv (of_nat w) (of_nat h)
      then \<lparr>canvasWidth = int w, canvasHeight = Math_round (jsDiv (of_nat w) r),
            offset_dx = 0,
            offset_dy = Math_round (of_int (Math_round (jsDiv (of_nat w) r) - int h) / 2)\<rparr>
      else \<lparr>canvasWidth = Math_round (jsMul (of_nat h) r), canvasHeight = int h,
            offset_dx = Math_round (of_int (Math_round (jsMul (of_nat h) r) - int w) / 2),
            offset_dy = 0\<rparr>)"
proof -
  note b = inRange_bounds [OF assms]
  have ch: "0 \<le> Math_round (jsDiv (of_nat w) r)" "Math_round (jsDiv (of_nat w) r) < 2 ^ 52"
    unfolding jsDiv_def using Math_round_fl_bounds [OF b(2) b(3)] by simp_all
  have cw: "0 \<le> Math_round (jsMul (of_nat h) r)" "Math_round (jsMul (of_nat h) r) < 2 ^ 52"
    unfolding jsMul_def using Math_round_fl_bounds [OF b(4) b(5)] by simp_all
  have "\<bar>Math_round (jsDiv (of_nat w) r) - int h\<bar> < 2 ^ 53"
    using ch b(10) by simp
  then have 1: "Math_round (jsDiv (jsSub (of_int (Math_round (jsDiv (of_nat w) r))) (of_int (int h))) 2)
             = Math_round (of_int (Math_round (jsDiv (of_nat w) r) - int h) / 2)"
    by (rule offset_exact)
  have "\<bar>Math_round (jsMul (of_nat h) r) - int w\<bar> < 2 ^ 53"
    using cw b(9) by simp
  then have 2: "Math_round (jsDiv (jsSub (of_int (Math_round (jsMul (of_nat h) r))) (of_int (int w))) 2)
             = Math_round (of_int (Math_round (jsMul (of_nat h) r) - int w) / 2)"
    by (rule offset_exact)
  show ?thesis
    using 1 2 by (simp add: padGeometry_def Let_def)
qed


lemma padCanvas_source_pixel:
  assumes g: "g = padGeometry (naturalWidth img) (naturalHeight img) r"
    and f: "0 \<le> offset_dx g" "0 \<le> offset_dy g"
      "offset_dx g + int (naturalWidth img) \<le> canvasWidth g"
      "offset_dy g + int (naturalHeight img) \<le> canvasHeight g"
    and x: "x < naturalWidth img" and y: "y < naturalHeight img"
  shows "pixelAt (padCanvas img r c) (nat (offset_dx g) + x) (nat (offset_dy g) + y)
           = blend SourceOver (pixelAt img x y) c"
proof -
  have X: "nat (offset_dx g) + x < naturalWidth (padCanvas img r c)"
    using f x by (simp add: padCanvas_width g [symmetric])
  have Y: "nat (offset_dy g) + y < naturalHeight (padCanvas img r c)"
    using f y by (simp add: padCanvas_height g [symmetric])
  have i: "int (nat (offset_dx g) + x) = offset_dx g + int x"
    "int (nat (offset_dy g) + y) = offset_dy g + int y"
    using f by simp_all
  show ?thesis
    unfolding padCanvas_pixel [OF X Y g] i using x y by (simp only: imageLayer_inside)
qed

lemma padCanvas_fill_pixel:
  assumes g: "g = padGeometry (naturalWidth img) (naturalHeight img) r"
    and X: "X < naturalWidth (padCanvas img r c)" and Y: "Y < naturalHeight (padCanvas img r c)"
    and out: "\<not> (offset_dx g \<le> int X \<and> int X < offset_dx g + int (naturalWidth img) \<and>
                offset_dy g \<le> int Y \<and> int Y < offset_dy g + int (naturalHeight img))"
  shows "pixelAt (padCanvas img r c) X Y = c"
proof -
  have "imageLayer img (offset_dx g) (offset_dy g) (int X) (int Y) = transparent"
    unfolding imageLayer_def using out by (simp only: if_False)
  then show ?thesis
    unfolding padCanvas_pixel [OF X Y g] by simp
qed

text \<open>
  C4, as stated, fails when \<open>round (h * r)\<close> is read as the rounded exact product. For a
  500 by 500 image and the ratio \<open>1.777\<close> (its binary64 value, the default of the
  padding utility) the source ratio 1 is below the target, the exact product is just
  below \<open>888.5\<close> and rounds to 888, with \<open>dx = round (388 / 2) = 194\<close>; the code rounds the
  product to the binary64 value \<open>888.5\<close> first and makes the canvas 889 wide, with
  \<open>dx = 195\<close>. With the decimal \<open>0.7\<close> itself in place of its binary64 value the formula
  is off as well: a 10 by 45 image gets \<open>round (45 * 0.7) = round 31.5 = 32\<close>, the code
  makes the canvas 31 wide.
\<close>

theorem pad_exact_product_counterexample:
  "rat_of_nat 500 / rat_of_nat 500 \<le> fl (1777 / 1000) \<and>
   round (rat_of_nat 500 * fl (1777 / 1000)) = 888 \<and>
   round (rat_of_int (888 - 500) / 2) = 194 \<and>
   canvasWidth (padGeometry 500 500 (fl (1777 / 1000))) = 889 \<and>
   offset_dx (padGeometry 500 500 (fl (1777 / 1000))) = 195 \<and>
   rat_of_nat 10 / rat_of_nat 45 \<le> 7 / 10 \<and>
   round (rat_of_nat 45 * (7 / 10)) = 32 \<and>
   canvasWidth (padGeometry 10 45 (fl (7 / 10))) = 31"
proof -
  have "round (rat_of_nat 500 * fl (1777 / 1000)) = 888"
    unfolding fl_literals by (simp add: round_def)
  moreover have "round (rat_of_int (888 - 500) / 2) = 194" by (simp add: round_def)
  moreover have "round (rat_of_nat 45 * (7 / 10)) = 32" by (simp add: round_def)
  moreover have "rat_of_nat 500 / rat_of_nat 500 \<le> fl (1777 / 1000)"
    unfolding fl_literals by simp
  ultimately show ?thesis
    by (simp add: padGeometry_500_500 padGeometry_10_45)
qed

text \<open>
  C4, amended. The ratio \<open>w / h\<close>, the quotient \<open>w / r\<close> and the product \<open>h * r\<close> are
  binary64 operations, each rounded to the nearest binary64 value before it is compared
  or passed to \<open>Math.round\<close>. For a decodable source of width \<open>w\<close> and height \<open>h\<close> and a
  target ratio \<open>r\<close> in range, the function returns the parsed PNG data URL of a canvas
  with this geometry: if the rounded \<open>w / h\<close> exceeds \<open>r\<close>, the canvas is \<open>w\<close> wide and
  \<open>Math.round\<close> of the rounded \<open>w / r\<close> high, \<open>dx = 0\<close> and
  \<open>dy = round ((canvasHeight - h) / 2)\<close>; otherwise it is \<open>h\<close> high and \<open>Math.round\<close> of the
  rounded \<open>h * r\<close> wide, \<open>dy = 0\<close> and \<open>dx = round ((canvasWidth - w) / 2)\<close>. The padded side
  differs from the exact \<open>w / r\<close> or \<open>h * r\<close> by at most a half plus a \<open>2^-53\<close> part of it.
  The canvas is no smaller than the source, the source lies inside it at \<open>(dx, dy)\<close>,
  each pixel there is the source pixel over the fill colour, and every other pixel is
  the fill colour. A 200 by 100 source padded to ratio 1 gives a 200 by 200 canvas with
  the source at \<open>dx = 0\<close>, \<open>dy = 50\<close>.
\<close>

theorem pad_geometry_centering:
  assumes l: "loadImage E (sourceImageToDataUrl simage) = Inr img"
    and w: "naturalWidth img = w" and h: "naturalHeight img = h"
    and rg: "inRange w h r"
    and g: "g = padGeometry w h r"
    and C: "C = padCanvas img r (parseColor E color)"
  shows
    "padImageToAspectRatioWithColor E simage r color
       = Inr (dataUrlToSourceImage (toDataURL E C (js ''image/png''))) \<and>
     g = (if r < jsDiv (of_nat w) (of_nat h)
          then \<lparr>canvasWidth = int w, canvasHeight = Math_round (jsDiv (of_nat w) r),
                offset_dx = 0,
                offset_dy = Math_round (of_int (Math_round (jsDiv (of_nat w) r) - int h) / 2)\<rparr>
          else \<lparr>canvasWidth = Math_round (jsMul (of_nat h) r), canvasHeight = int h,
                offset_dx = Math_round (of_int (Math_round (jsMul (of_nat h) r) - int w) / 2),
                offset_dy = 0\<rparr>) \<and>
     (r < jsDiv (of_nat w) (of_nat h) \<longrightarrow>
        \<bar>of_int (canvasHeight g) - of_nat w / r\<bar> \<le> 1 / 2 + (of_nat w / r) / 2 ^ 53) \<and>
     (\<not> r < jsDiv (of_nat w) (of_nat h) \<longrightarrow>
        \<bar>of_int (canvasWidth g) - of_nat h * r\<bar> \<le> 1 / 2 + (of_nat h * r) / 2 ^ 53) \<and>
     naturalWidth C = nat (canvasWidth g) \<and> naturalHeight C = nat (canvasHeight g) \<and>
     int w \<le> canvasWidth g \<and> int h \<le> canvasHeight g \<and>
     0 \<le> offset_dx g \<and> 0 \<le> offset_dy g \<and>
     offset_dx g + int w \<le> canvasWidth g \<and> offset_dy g + int h \<le> canvasHeight g \<and>
     (\<forall>x<w. \<forall>y<h. pixelAt C (nat (offset_dx g) + x) (nat (offset_dy g) + y)
                      = blend SourceOver (pixelAt img x y) (parseColor E color)) \<and>
     (\<forall>X<naturalWidth C. \<forall>Y<naturalHeight C.
        \<not> (offset_dx g \<le> int X \<and> int X < offset_dx g + int w \<and>
           offset_dy g \<le> int Y \<and> int Y < offset_dy g + int h)
        \<longrightarrow> pixelAt C X Y = parseColor E color) \<and>
     (w = 200 \<and> h = 100 \<and> r = 1 \<longrightarrow>
        g = \<lparr>canvasWidth = 200, canvasHeight = 200, offset_dx = 0, offset_dy = 50\<rparr>)"
proof -
  note b = inRange_bounds [OF rg]
  have g': "g = padGeometry (naturalWidth img) (naturalHeight img) r" by (simp add: g w h)
  note f = padGeometry_fits [OF b(8) b(6) b(7) b(1) g]
  have 1: "padImageToAspectRatioWithColor E simage r color
       = Inr (dataUrlToSourceImage (toDataURL E C (js ''image/png'')))"
    unfolding C by (rule padImage_result [OF l])
  have 2: "g = (if r < jsDiv (of_nat w) (of_nat h)
          then \<lparr>canvasWidth = int w, canvasHeight = Math_round (jsDiv (of_nat w) r),
                offset_dx = 0,
                offset_dy = Math_round (of_int (Math_round (jsDiv (of_nat w) r) - int h) / 2)\<rparr>
          else \<lparr>canvasWidth = Math_round (jsMul (of_nat h) r), canvasHeight = int h,
                offset_dx = Math_round (of_int (Math_round (jsMul (of_nat h) r) - int w) / 2),
                offset_dy = 0\<rparr>)"
    unfolding g by (rule padGeometry_exact_offsets [OF rg])
  have 3: "r < jsDiv (of_nat w) (of_nat h) \<longrightarrow>
        \<bar>of_int (canvasHeight g) - of_nat w / r\<bar> \<le> 1 / 2 + (of_nat w / r) / 2 ^ 53"
    using rounded_error [OF b(2)] by (simp add: 2 jsDiv_def)
  have 4: "\<not> r < jsDiv (of_nat w) (of_nat h) \<longrightarrow>
        \<bar>of_int (canvasWidth g) - of_nat h * r\<bar> \<le> 1 / 2 + (of_nat h * r) / 2 ^ 53"
    using rounded_error [OF b(4)] by (simp add: 2 jsMul_def)
  have 5: "naturalWidth C = nat (canvasWidth g)" "naturalHeight C = nat (canvasHeight g)"
    by (simp_all add: C padCanvas_width padCanvas_height g w h)
  have 6: "\<forall>x<w. \<forall>y<h. pixelAt C (nat (offset_dx g) + x) (nat (offset_dy g) + y)
                      = blend SourceOver (pixelAt img x y) (parseColor E color)"
    unfolding C using padCanvas_source_pixel [OF g'] f by (simp add: w h)
  have 7: "\<forall>X<naturalWidth C. \<forall>Y<naturalHeight C.
        \<not> (offset_dx g \<le> int X \<and> int X < offset_dx g + int w \<and>
           offset_dy g \<le> int Y \<and> int Y < offset_dy g + int h)
        \<longrightarrow> pixelAt C X Y = parseColor E color"
    unfolding C using padCanvas_fill_pixel [OF g'] by (simp add: w h)
  have 8: "w = 200 \<and> h = 100 \<and> r = 1 \<longrightarrow>
        g = \<lparr>canvasWidth = 200, canvasHeight = 200, offset_dx = 0, offset_dy = 50\<rparr>"
    by (simp add: g padGeometry_200_100)
  from 1 2 3 4 5 f 6 7 8 show ?thesis by (intro conjI)
qed


theorem pad_geometry_centering_witness:
  "padImageToAspectRatioWithColor
     (sampleEnv (sampleDecode [(js ''data:image/png;base64,AAAA'', solid 200 100 opaque_red)])
        (\<lambda>a b c. Inl RemoteError))
     \<lparr>base64 = js ''AAAA'', mimeType = js ''image/png''\<rparr> 1 (js ''white'')
     = Inr (Some \<lparr>base64 = js ''AAAA'', mimeType = js ''image/png''\<rparr>) \<and>
   padGeometry 200 100 1
     = \<lparr>canvasWidth = 200, canvasHeight = 200, offset_dx = 0, offset_dy = 50\<rparr> \<and>
   naturalWidth (padCanvas (solid 200 100 opaque_red) 1 white) = 200 \<and>
   naturalHeight (padCanvas (solid 200 100 opaque_red) 1 white) = 200 \<and>
   pixelAt (padCanvas (solid 200 100 opaque_red) 1 white) 10 (50 + 20) = opaque_red \<and>
   pixelAt (padCanvas (solid 200 100 opaque_red) 1 white) 10 10 = white \<and>
   naturalWidth (padCanvas (solid 500 500 opaque_red) (fl (1777 / 1000)) white) = 889 \<and>
   pixelAt (padCanvas (solid 500 500 opaque_red) (fl (1777 / 1000)) white) (195 + 0) 0 = opaque_red \<and>
   pixelAt (padCanvas (solid 500 500 opaque_red) (fl (1777 / 1000)) white) 194 0 = white"
proof -
  let ?E = "sampleEnv (sampleDecode [(js ''data:image/png;base64,AAAA'', solid 200 100 opaque_red)])
        (\<lambda>a b c. Inl RemoteError)"
  let ?F = "sampleEnv (sampleDecode [(js ''data:image/png;base64,AAAA'', solid 500 500 opaque_red)])
        (\<lambda>a b c. Inl RemoteError)"
  let ?s = "\<lparr>base64 = js ''AAAA'', mimeType = js ''image/png''\<rparr>"
  let ?C = "padCanvas (solid 200 100 opaque_red) 1 white"
  let ?D = "padCanvas (solid 500 500 opaque_red) (fl (1777 / 1000)) white"
  have l: "loadImage ?E (sourceImageToDataUrl ?s) = Inr (solid 200 100 opaque_red)"
    by (simp add: sampleEnv_simps sampleDecode_def sourceImageToDataUrl_def js_def)
  have l': "loadImage ?F (sourceImageToDataUrl ?s) = Inr (solid 500 500 opaque_red)"
    by (simp add: sampleEnv_simps sampleDecode_def sourceImageToDataUrl_def js_def)
  have rg: "inRange 200 100 1" by (simp add: inRange_def)
  have rg': "inRange 500 500 (fl (1777 / 1000))" unfolding fl_literals by (simp add: inRange_def)
  have C: "?C = padCanvas (solid 200 100 opaque_red) 1 (parseColor ?E (js ''white''))"
    by (simp add: sampleEnv_simps)
  have D: "?D = padCanvas (solid 500 500 opaque_red) (fl (1777 / 1000)) (parseColor ?F (js ''white''))"
    by (simp add: sampleEnv_simps)
  note t = pad_geometry_centering [OF l solid_simps(1) solid_simps(2) rg refl C]
  note u = pad_geometry_centering [OF l' solid_simps(1) solid_simps(2) rg' refl D]
  have "(200::nat) = 200 \<and> (100::nat) = 100 \<and> (1::rat) = 1 \<longrightarrow> padGeometry 200 100 1
     = \<lparr>canvasWidth = 200, canvasHeight = 200, offset_dx = 0, offset_dy = 50\<rparr>"
    using t by (elim conjE)
  then have g: "padGeometry 200 100 1
     = \<lparr>canvasWidth = 200, canvasHeight = 200, offset_dx = 0, offset_dy = 50\<rparr>"
    by simp
  have 1: "padImageToAspectRatioWithColor ?E ?s 1 (js ''white'') = Inr (Some ?s)"
    using t by (simp add: sampleEnv_simps png_AAAA)
  have 2: "naturalWidth ?C = 200" "naturalHeight ?C = 200"
    using t by (simp_all add: g)
  have q: "\<forall>x<200. \<forall>y<100. pixelAt ?C (nat (offset_dx (padGeometry 200 100 1)) + x)
                (nat (offset_dy (padGeometry 200 100 1)) + y)
             = blend SourceOver (pixelAt (solid 200 100 opaque_red) x y) (parseColor ?E (js ''white''))"
    using t by blast
  have 3: "pixelAt ?C 10 (50 + 20) = opaque_red"
    using q [rule_format, of 10 20]
    by (simp add: g solid_simps blend_opaque_over opaque_red_def)
  have q': "\<forall>X<naturalWidth ?C. \<forall>Y<naturalHeight ?C.
        \<not> (offset_dx (padGeometry 200 100 1) \<le> int X \<and> int X < offset_dx (padGeometry 200 100 1) + int 200 \<and>
           offset_dy (padGeometry 200 100 1) \<le> int Y \<and> int Y < offset_dy (padGeometry 200 100 1) + int 100)
        \<longrightarrow> pixelAt ?C X Y = parseColor ?E (js ''white'')"
    using t by blast
  have 4: "pixelAt ?C 10 10 = white"
    using q' [rule_format, of 10 10] by (simp add: g 2 sampleEnv_simps)
  have 5: "naturalWidth ?D = 889"
    using u by (simp add: padGeometry_500_500)
  have r: "\<forall>x<500. \<forall>y<500. pixelAt ?D (nat (offset_dx (padGeometry 500 500 (fl (1777 / 1000)))) + x)
                (nat (offset_dy (padGeometry 500 500 (fl (1777 / 1000)))) + y)
             = blend SourceOver (pixelAt (solid 500 500 opaque_red) x y) (parseColor ?F (js ''white''))"
    using u by blast
  have 6: "pixelAt ?D (195 + 0) 0 = opaque_red"
    using r [rule_format, of 0 0]
    by (simp add: padGeometry_500_500 solid_simps blend_opaque_over opaque_red_def)
  have r': "\<forall>X<naturalWidth ?D. \<forall>Y<naturalHeight ?D.
        \<not> (offset_dx (padGeometry 500 500 (fl (1777 / 1000))) \<le> int X \<and>
           int X < offset_dx (padGeometry 500 500 (fl (1777 / 1000))) + int 500 \<and>
           offset_dy (padGeometry 500 500 (fl (1777 / 1000))) \<le> int Y \<and>
           int Y < offset_dy (padGeometry 500 500 (fl (1777 / 1000))) + int 500)
        \<longrightarrow> pixelAt ?D X Y = parseColor ?F (js ''white'')"
    using u by blast
  have h5: "naturalHeight ?D = 500" using u by (simp add: padGeometry_500_500)
  have 7: "pixelAt ?D 194 0 = white"
    using r' [rule_format, of 194 0] by (simp add: padGeometry_500_500 5 h5 sampleEnv_simps)
  from 1 g 2 3 4 5 6 7 show ?thesis by (intro conjI)
qed


lemma padGeometry_tall:
  assumes "r < jsDiv (of_nat w) (of_nat h)"
  shows "canvasWidth (padGeometry w h r) = int w"
    "canvasHeight (padGeometry w h r) = Math_round (jsDiv (of_nat w) r)"
  using assms by (simp_all add: padGeometry_def Let_def)

lemma padGeometry_wide:
  assumes "\<not> r < jsDiv (of_nat w) (of_nat h)"
  shows "canvasWidth (padGeometry w h r) = Math_round (jsMul (of_nat h) r)"
    "canvasHeight (padGeometry w h r) = int h"
  using assms by (simp_all add: padGeometry_def Let_def)

lemma Math_round_of_nat: "Math_round (of_nat n) = int n"
proof -
  have "Math_round (of_int (int n)) = int n"
    unfolding Math_round_def by linarith
  then show ?thesis by simp
qed

lemma fl_of_nat:
  assumes "n < 2 ^ 53"
  shows "fl (of_nat n) = of_nat n"
proof -
  have "int n < int (2 ^ 53)" using assms by (simp only: of_nat_less_iff)
  then have "\<bar>int n\<bar> < 2 ^ 53" by simp
  then have "fl (of_int (int n)) = of_int (int n)" by (rule fl_of_int)
  then show ?thesis by simp
qed

lemma padGeometry_at_ratio:
  assumes e: "of_nat w = r * of_nat h" and h: "0 < h" and w: "w < 2 ^ 53" "h < 2 ^ 53"
  shows "canvasWidth (padGeometry w h r) = int w" "canvasHeight (padGeometry w h r) = int h"
proof -
  have r: "r \<noteq> 0 \<or> w = 0" using e by auto
  have "of_nat h * r = (of_nat w :: rat)" using e by (simp add: mult.commute)
  then have 1: "Math_round (jsMul (of_nat h) r) = int w"
    unfolding jsMul_def by (simp only: fl_of_nat [OF w(1)] Math_round_of_nat)
  have 2: "r < jsDiv (of_nat w) (of_nat h) \<Longrightarrow> Math_round (jsDiv (of_nat w) r) = int h"
  proof -
    assume a: "r < jsDiv (of_nat w) (of_nat h)"
    have "r \<noteq> 0"
    proof
      assume "r = 0"
      then have "w = 0" using e by simp
      with a \<open>r = 0\<close> show False by (simp add: jsDiv_def fl_def)
    qed
    then have "of_nat w / r = (of_nat h :: rat)" using e by simp
    then show ?thesis
      unfolding jsDiv_def by (simp only: fl_of_nat [OF w(2)] Math_round_of_nat)
  qed
  show "canvasWidth (padGeometry w h r) = int w" "canvasHeight (padGeometry w h r) = int h"
    using 1 2 by (simp_all add: padGeometry_def Let_def)
qed

text \<open>
  C5, as stated, fails: a 101 by 10 image padded to ratio 2 becomes 101 by 51
  (\<open>round 50.5 = 51\<close>); its ratio is now below 2, so padding it again widens it to
  102 by 51.
\<close>

theorem pad_twice_grows_counterexample:
  "(naturalWidth (padCanvas (solid 101 10 white) 2 white),
    naturalHeight (padCanvas (solid 101 10 white) 2 white)) = (101, 51) \<and>
   (naturalWidth (padCanvas (padCanvas (solid 101 10 white) 2 white) 2 white),
    naturalHeight (padCanvas (padCanvas (solid 101 10 white) 2 white) 2 white)) = (102, 51) \<and>
   (naturalWidth (padCanvas (padCanvas (solid 101 10 white) 2 white) 2 white),
    naturalHeight (padCanvas (padCanvas (solid 101 10 white) 2 white) 2 white))
   \<noteq> (naturalWidth (padCanvas (solid 101 10 white) 2 white),
       naturalHeight (padCanvas (solid 101 10 white) 2 white))"
proof -
  have 1: "naturalWidth (padCanvas (solid 101 10 white) 2 white) = 101"
    "naturalHeight (padCanvas (solid 101 10 white) 2 white) = 51"
    by (simp_all add: padCanvas_width padCanvas_height solid_def padGeometry_101_10)
  have 2: "naturalWidth (padCanvas (padCanvas (solid 101 10 white) 2 white) 2 white) = 102"
    "naturalHeight (padCanvas (padCanvas (solid 101 10 white) 2 white) 2 white) = 51"
    by (simp_all add: padCanvas_width [of "padCanvas (solid 101 10 white) 2 white"]
        padCanvas_height [of "padCanvas (solid 101 10 white) 2 white"] 1 padGeometry_101_51)
  show ?thesis by (simp add: 1 2)
qed

text \<open>
  C5, amended. Take a decodable image of size \<open>w1\<close> by \<open>h1\<close> in range, pad it, and let the
  returned image decode to a bitmap of the size of the padded canvas, \<open>w2\<close> by \<open>h2\<close>.
  The first padding never shrinks a side. Padding the result again returns the parsed
  data URL of a second canvas, and
  \<^item> if the second pass takes the same branch as the first (both find the rounded ratio
    above \<open>r\<close>, or both do not), the second canvas has the size \<open>w2\<close> by \<open>h2\<close> of the first;
  \<^item> if the first pass grew the height and the second does not find the ratio above \<open>r\<close>,
    the size is kept exactly when \<open>Math.round\<close> of the rounded \<open>h2 * r\<close> is \<open>w2\<close>;
  \<^item> if the first pass grew the width and the second finds the ratio above \<open>r\<close>, the size
    is kept exactly when \<open>Math.round\<close> of the rounded \<open>w2 / r\<close> is \<open>h2\<close>;
  \<^item> an image exactly at the target ratio (\<open>w = r * h\<close>) keeps its size, in the first
    pass and in the second.
\<close>

theorem pad_twice_same_size:
  assumes l1: "loadImage E (sourceImageToDataUrl s1) = Inr img1"
    and p1: "padImageToAspectRatioWithColor E s1 r color = Inr (Some s2)"
    and l2: "loadImage E (sourceImageToDataUrl s2) = Inr img2"
    and P1: "P1 = padCanvas img1 r (parseColor E color)"
    and P2: "P2 = padCanvas img2 r (parseColor E color)"
    and w1: "w1 = naturalWidth img1" and h1: "h1 = naturalHeight img1"
    and w2: "w2 = naturalWidth img2" and h2: "h2 = naturalHeight img2"
    and enc: "w2 = naturalWidth P1" "h2 = naturalHeight P1"
    and rg: "inRange w1 h1 r"
  shows
    "padImageToAspectRatioWithColor E s2 r color
       = Inr (dataUrlToSourceImage (toDataURL E P2 (js ''image/png''))) \<and>
     w1 \<le> w2 \<and> h1 \<le> h2 \<and>
     ((r < jsDiv (of_nat w1) (of_nat h1) \<longleftrightarrow> r < jsDiv (of_nat w2) (of_nat h2))
        \<longrightarrow> naturalWidth P2 = w2 \<and> naturalHeight P2 = h2) \<and>
     (r < jsDiv (of_nat w1) (of_nat h1) \<and> \<not> r < jsDiv (of_nat w2) (of_nat h2)
        \<longrightarrow> (naturalWidth P2 = w2 \<and> naturalHeight P2 = h2
               \<longleftrightarrow> Math_round (jsMul (of_nat h2) r) = int w2)) \<and>
     (\<not> r < jsDiv (of_nat w1) (of_nat h1) \<and> r < jsDiv (of_nat w2) (of_nat h2)
        \<longrightarrow> (naturalWidth P2 = w2 \<and> naturalHeight P2 = h2
               \<longleftrightarrow> Math_round (jsDiv (of_nat w2) r) = int h2)) \<and>
     (of_nat w1 = r * of_nat h1 \<longrightarrow> w2 = w1 \<and> h2 = h1) \<and>
     (of_nat w2 = r * of_nat h2 \<longrightarrow> naturalWidth P2 = w2 \<and> naturalHeight P2 = h2)"
proof -
  note b = inRange_bounds [OF rg]
  let ?g1 = "padGeometry w1 h1 r"
  let ?g2 = "padGeometry w2 h2 r"
  have W2: "w2 = nat (canvasWidth ?g1)" and H2: "h2 = nat (canvasHeight ?g1)"
    by (simp_all add: enc P1 padCanvas_width padCanvas_height w1 h1)
  have PW: "naturalWidth P2 = nat (canvasWidth ?g2)" and PH: "naturalHeight P2 = nat (canvasHeight ?g2)"
    by (simp_all add: P2 padCanvas_width padCanvas_height w2 h2)
  note f = padGeometry_fits [OF b(8) b(6) b(7) b(1) refl]
  have 1: "padImageToAspectRatioWithColor E s2 r color
       = Inr (dataUrlToSourceImage (toDataURL E P2 (js ''image/png'')))"
    unfolding P2 by (rule padImage_result [OF l2])
  have 2: "w1 \<le> w2" "h1 \<le> h2" using f(1,2) by (simp_all add: W2 H2)
  have h2pos: "0 < h2" using 2(2) b(8) by simp
  have ch: "0 \<le> Math_round (jsDiv (of_nat w1) r)" "Math_round (jsDiv (of_nat w1) r) < 2 ^ 52"
    unfolding jsDiv_def using Math_round_fl_bounds [OF b(2) b(3)] by simp_all
  have cw: "0 \<le> Math_round (jsMul (of_nat h1) r)" "Math_round (jsMul (of_nat h1) r) < 2 ^ 52"
    unfolding jsMul_def using Math_round_fl_bounds [OF b(4) b(5)] by simp_all
  have 3: "(r < jsDiv (of_nat w1) (of_nat h1) \<longleftrightarrow> r < jsDiv (of_nat w2) (of_nat h2))
        \<longrightarrow> naturalWidth P2 = w2 \<and> naturalHeight P2 = h2"
  proof (intro impI, cases "r < jsDiv (of_nat w1) (of_nat h1)")
    case True
    assume "r < jsDiv (of_nat w1) (of_nat h1) \<longleftrightarrow> r < jsDiv (of_nat w2) (of_nat h2)"
    with True have s: "r < jsDiv (of_nat w2) (of_nat h2)" by simp
    have e: "w2 = w1" by (simp add: W2 padGeometry_tall [OF True])
    have c: "canvasHeight ?g2 = canvasHeight ?g1"
      using padGeometry_tall(2) [OF s] padGeometry_tall(2) [OF True] e by simp
    have "naturalWidth P2 = w2" by (simp add: PW padGeometry_tall(1) [OF s])
    moreover have "naturalHeight P2 = h2"
    proof -
      have "naturalHeight P2 = nat (canvasHeight ?g2)" by (rule PH)
      also have "\<dots> = nat (canvasHeight ?g1)" by (simp only: c)
      also have "\<dots> = h2" by (rule H2 [symmetric])
      finally show ?thesis .
    qed
    ultimately show "naturalWidth P2 = w2 \<and> naturalHeight P2 = h2" by (rule conjI)
  next
    case False
    assume "r < jsDiv (of_nat w1) (of_nat h1) \<longleftrightarrow> r < jsDiv (of_nat w2) (of_nat h2)"
    with False have s: "\<not> r < jsDiv (of_nat w2) (of_nat h2)" by simp
    have e: "h2 = h1" by (simp add: H2 padGeometry_wide [OF False])
    have c: "canvasWidth ?g2 = canvasWidth ?g1"
      using padGeometry_wide(1) [OF s] padGeometry_wide(1) [OF False] e by simp
    have "naturalWidth P2 = w2"
    proof -
      have "naturalWidth P2 = nat (canvasWidth ?g2)" by (rule PW)
      also have "\<dots> = nat (canvasWidth ?g1)" by (simp only: c)
      also have "\<dots> = w2" by (rule W2 [symmetric])
      finally show ?thesis .
    qed
    moreover have "naturalHeight P2 = h2" by (simp add: PH padGeometry_wide(2) [OF s])
    ultimately show "naturalWidth P2 = w2 \<and> naturalHeight P2 = h2" by (rule conjI)
  qed
  have 4: "r < jsDiv (of_nat w1) (of_nat h1) \<and> \<not> r < jsDiv (of_nat w2) (of_nat h2)
        \<longrightarrow> (naturalWidth P2 = w2 \<and> naturalHeight P2 = h2
               \<longleftrightarrow> Math_round (jsMul (of_nat h2) r) = int w2)"
  proof (intro impI, elim conjE)
    assume s: "\<not> r < jsDiv (of_nat w2) (of_nat h2)"
    have "0 \<le> of_nat h2 * r" using b(1) by simp
    then have "0 \<le> fl (of_nat h2 * r)" by (rule fl_nonneg)
    then have "0 \<le> Math_round (jsMul (of_nat h2) r)" by (simp add: jsMul_def Math_round_def)
    then show "naturalWidth P2 = w2 \<and> naturalHeight P2 = h2
               \<longleftrightarrow> Math_round (jsMul (of_nat h2) r) = int w2"
      by (auto simp add: PW PH padGeometry_wide [OF s])
  qed
  have 5: "\<not> r < jsDiv (of_nat w1) (of_nat h1) \<and> r < jsDiv (of_nat w2) (of_nat h2)
        \<longrightarrow> (naturalWidth P2 = w2 \<and> naturalHeight P2 = h2
               \<longleftrightarrow> Math_round (jsDiv (of_nat w2) r) = int h2)"
  proof (intro impI, elim conjE)
    assume s: "r < jsDiv (of_nat w2) (of_nat h2)"
    have "0 \<le> of_nat w2 / r" using b(1) by simp
    then have "0 \<le> fl (of_nat w2 / r)" by (rule fl_nonneg)
    then have "0 \<le> Math_round (jsDiv (of_nat w2) r)" by (simp add: jsDiv_def Math_round_def)
    then show "naturalWidth P2 = w2 \<and> naturalHeight P2 = h2
               \<longleftrightarrow> Math_round (jsDiv (of_nat w2) r) = int h2"
      by (auto simp add: PW PH padGeometry_tall [OF s])
  qed
  have small1: "w1 < 2 ^ 53" "h1 < 2 ^ 53" using b(6,7) by simp_all
  have 6: "of_nat w1 = r * of_nat h1 \<longrightarrow> w2 = w1 \<and> h2 = h1"
    using padGeometry_at_ratio [OF _ b(8) small1, of r] by (simp add: W2 H2)
  have "canvasWidth ?g1 < 2 ^ 52 \<and> canvasHeight ?g1 < 2 ^ 52"
    using ch cw b(9,10) by (cases "r < jsDiv (of_nat w1) (of_nat h1)")
      (simp_all add: padGeometry_tall padGeometry_wide)
  then have small2: "w2 < 2 ^ 53" "h2 < 2 ^ 53"
    by (simp_all add: W2 H2) linarith+
  have 7: "of_nat w2 = r * of_nat h2 \<longrightarrow> naturalWidth P2 = w2 \<and> naturalHeight P2 = h2"
    using padGeometry_at_ratio [OF _ h2pos small2, of r] by (simp add: PW PH)
  from 1 2 3 4 5 6 7 show ?thesis by (intro conjI)
qed


theorem pad_twice_same_size_witness:
  "padImageToAspectRatioWithColor
     ((sampleEnv (sampleDecode [(js ''data:image/png;base64,AAAA'', solid 100 30 white),
                                (js ''data:image/png;base64,BBBB'', solid 100 33 white)])
         (\<lambda>a b c. Inl RemoteError))\<lparr>toDataURL := \<lambda>b t. js ''data:image/png;base64,BBBB''\<rparr>)
     \<lparr>base64 = js ''BBBB'', mimeType = js ''image/png''\<rparr> 3 (js ''white'')
     = Inr (Some \<lparr>base64 = js ''BBBB'', mimeType = js ''image/png''\<rparr>) \<and>
   naturalWidth (padCanvas (solid 100 30 white) 3 white) = 100 \<and>
   naturalHeight (padCanvas (solid 100 30 white) 3 white) = 33 \<and>
   naturalWidth (padCanvas (solid 100 33 white) 3 white) = 100 \<and>
   naturalHeight (padCanvas (solid 100 33 white) 3 white) = 33"
proof -
  let ?E = "(sampleEnv (sampleDecode [(js ''data:image/png;base64,AAAA'', solid 100 30 white),
                                (js ''data:image/png;base64,BBBB'', solid 100 33 white)])
         (\<lambda>a b c. Inl RemoteError))\<lparr>toDataURL := \<lambda>b t. js ''data:image/png;base64,BBBB''\<rparr>"
  let ?s1 = "\<lparr>base64 = js ''AAAA'', mimeType = js ''image/png''\<rparr>"
  let ?s2 = "\<lparr>base64 = js ''BBBB'', mimeType = js ''image/png''\<rparr>"
  let ?P1 = "padCanvas (solid 100 30 white) 3 white"
  let ?P2 = "padCanvas (solid 100 33 white) 3 white"
  have c: "parseColor ?E (js ''white'') = white" by (simp add: sampleEnv_simps)
  have l1: "loadImage ?E (sourceImageToDataUrl ?s1) = Inr (solid 100 30 white)"
    by (simp add: sampleEnv_simps sampleDecode_def sourceImageToDataUrl_def js_def)
  have l2: "loadImage ?E (sourceImageToDataUrl ?s2) = Inr (solid 100 33 white)"
    by (simp add: sampleEnv_simps sampleDecode_def sourceImageToDataUrl_def js_def)
  have p1: "padImageToAspectRatioWithColor ?E ?s1 3 (js ''white'') = Inr (Some ?s2)"
    by (simp add: padImage_result [OF l1] png_BBBB)
  have P1: "?P1 = padCanvas (solid 100 30 white) 3 (parseColor ?E (js ''white''))"
    and P2: "?P2 = padCanvas (solid 100 33 white) 3 (parseColor ?E (js ''white''))"
    by (simp_all only: c)
  have d: "naturalWidth ?P1 = 100" "naturalHeight ?P1 = 33"
    by (simp_all add: padCanvas_width padCanvas_height solid_simps padGeometry_100_30)
  have enc: "100 = naturalWidth ?P1" "33 = naturalHeight ?P1" by (simp_all add: d)
  have rg: "inRange 100 30 3" by (simp add: inRange_def)
  have w1: "100 = naturalWidth (solid 100 30 white)" and h1: "30 = naturalHeight (solid 100 30 white)"
    and w2: "100 = naturalWidth (solid 100 33 white)" and h2: "33 = naturalHeight (solid 100 33 white)"
    by (simp_all add: solid_simps)
  note t = pad_twice_same_size [OF l1 p1 l2 P1 P2 w1 h1 w2 h2 enc rg]
  have br: "(3 < jsDiv (of_nat 100) (of_nat 30)) = (3 < jsDiv (of_nat 100) (of_nat 33))"
    by (simp add: jsDiv_def fl_quotients)
  have 1: "padImageToAspectRatioWithColor ?E ?s2 3 (js ''white'') = Inr (Some ?s2)"
    using t by (simp add: png_BBBB)
  have 2: "naturalWidth ?P2 = 100 \<and> naturalHeight ?P2 = 33"
    using t br by blast
  from 1 d 2 show ?thesis by simp
qed

section \<open>Properties of the nearest aspect ratio\<close>

text \<open>
  The scan returns the start pair if no computed difference is below the start value,
  and otherwise the first entry whose computed difference is the least.
\<close>

lemma scanRatios_first_min:
  assumes "scanRatios ratio rs (m, c) = (m', c')"
  shows "((\<forall>j<length rs. m \<le> \<bar>jsSub ratio (snd (rs ! j))\<bar>) \<and> m' = m \<and> c' = c) \<or>
         (\<exists>i<length rs. c' = fst (rs ! i) \<and> m' = \<bar>jsSub ratio (snd (rs ! i))\<bar> \<and> m' < m \<and>
            (\<forall>j<length rs. m' \<le> \<bar>jsSub ratio (snd (rs ! j))\<bar>) \<and>
            (\<forall>j<i. m' < \<bar>jsSub ratio (snd (rs ! j))\<bar>))"
  using assms
proof (induction rs arbitrary: m c)
  case Nil
  then show ?case by simp
next
  case (Cons a rs)
  obtain l v where a: "a = (l, v)" by (cases a)
  let ?d = "\<bar>jsSub ratio v\<bar>"
  show ?case
  proof (cases "?d < m")
    case True
    then have run: "scanRatios ratio rs (?d, l) = (m', c')"
      using Cons.prems by (simp add: a)
    from Cons.IH [OF run] show ?thesis
    proof
      assume h: "(\<forall>j<length rs. ?d \<le> \<bar>jsSub ratio (snd (rs ! j))\<bar>) \<and> m' = ?d \<and> c' = l"
      have "0 < length (a # rs) \<and> c' = fst ((a # rs) ! 0) \<and> m' = \<bar>jsSub ratio (snd ((a # rs) ! 0))\<bar> \<and> m' < m \<and>
            (\<forall>j<length (a # rs). m' \<le> \<bar>jsSub ratio (snd ((a # rs) ! j))\<bar>) \<and>
            (\<forall>j<0. m' < \<bar>jsSub ratio (snd ((a # rs) ! j))\<bar>)"
        using h True by (auto simp: a nth_Cons split: nat.splits)
      then show ?thesis by blast
    next
      assume "\<exists>i<length rs. c' = fst (rs ! i) \<and> m' = \<bar>jsSub ratio (snd (rs ! i))\<bar> \<and> m' < ?d \<and>
            (\<forall>j<length rs. m' \<le> \<bar>jsSub ratio (snd (rs ! j))\<bar>) \<and>
            (\<forall>j<i. m' < \<bar>jsSub ratio (snd (rs ! j))\<bar>)"
      then obtain i where i: "i < length rs" "c' = fst (rs ! i)" "m' = \<bar>jsSub ratio (snd (rs ! i))\<bar>" "m' < ?d"
        "\<forall>j<length rs. m' \<le> \<bar>jsSub ratio (snd (rs ! j))\<bar>" "\<forall>j<i. m' < \<bar>jsSub ratio (snd (rs ! j))\<bar>"
        by blast
      have "Suc i < length (a # rs) \<and> c' = fst ((a # rs) ! Suc i) \<and> m' = \<bar>jsSub ratio (snd ((a # rs) ! Suc i))\<bar> \<and> m' < m \<and>
            (\<forall>j<length (a # rs). m' \<le> \<bar>jsSub ratio (snd ((a # rs) ! j))\<bar>) \<and>
            (\<forall>j<Suc i. m' < \<bar>jsSub ratio (snd ((a # rs) ! j))\<bar>)"
        using i True by (auto simp: a nth_Cons split: nat.splits)
      then show ?thesis by blast
    qed
  next
    case False
    then have run: "scanRatios ratio rs (m, c) = (m', c')"
      using Cons.prems by (simp add: a)
    from Cons.IH [OF run] show ?thesis
    proof
      assume h: "(\<forall>j<length rs. m \<le> \<bar>jsSub ratio (snd (rs ! j))\<bar>) \<and> m' = m \<and> c' = c"
      then have "(\<forall>j<length (a # rs). m \<le> \<bar>jsSub ratio (snd ((a # rs) ! j))\<bar>) \<and> m' = m \<and> c' = c"
        using False by (auto simp: a nth_Cons split: nat.splits)
      then show ?thesis by blast
    next
      assume "\<exists>i<length rs. c' = fst (rs ! i) \<and> m' = \<bar>jsSub ratio (snd (rs ! i))\<bar> \<and> m' < m \<and>
            (\<forall>j<length rs. m' \<le> \<bar>jsSub ratio (snd (rs ! j))\<bar>) \<and>
            (\<forall>j<i. m' < \<bar>jsSub ratio (snd (rs ! j))\<bar>)"
      then obtain i where i: "i < length rs" "c' = fst (rs ! i)" "m' = \<bar>jsSub ratio (snd (rs ! i))\<bar>" "m' < m"
        "\<forall>j<length rs. m' \<le> \<bar>jsSub ratio (snd (rs ! j))\<bar>" "\<forall>j<i. m' < \<bar>jsSub ratio (snd (rs ! j))\<bar>"
        by blast
      have "Suc i < length (a # rs) \<and> c' = fst ((a # rs) ! Suc i) \<and> m' = \<bar>jsSub ratio (snd ((a # rs) ! Suc i))\<bar> \<and> m' < m \<and>
            (\<forall>j<length (a # rs). m' \<le> \<bar>jsSub ratio (snd ((a # rs) ! j))\<bar>) \<and>
            (\<forall>j<Suc i. m' < \<bar>jsSub ratio (snd ((a # rs) ! j))\<bar>)"
        using i False by (auto simp: a nth_Cons split: nat.splits)
      then show ?thesis by blast
    qed
  qed
qed

lemma MAX_VALUE_big: "2 ^ 40 \<le> MAX_VALUE"
proof -
  have "(2::rat) ^ 40 \<le> 1 * 2 ^ 971" by (simp add: power_increasing)
  also have "\<dots> \<le> (2 ^ 53 - 1) * 2 ^ 971" by (intro mult_right_mono) simp_all
  finally show ?thesis by (simp add: MAX_VALUE_def)
qed

lemma MAX_VALUE_gt_1: "1 < MAX_VALUE"
proof -
  have "(1::rat) < 2 ^ 40" by simp
  then show ?thesis using MAX_VALUE_big by linarith
qed

lemma first_diff_small:
  assumes "0 < h" "w < 2 ^ 32"
  shows "\<bar>jsSub (jsDiv (of_nat w) (of_nat h)) 1\<bar> < MAX_VALUE"
proof -
  define q :: rat where "q = of_nat w / of_nat h"
  have "q \<le> of_nat w"
    using assms(1) by (simp add: q_def divide_le_eq mult_le_cancel_left1)
  moreover have "(of_nat w :: rat) < 2 ^ 32"
    using assms(2) by (metis of_nat_less_iff of_nat_numeral of_nat_power)
  moreover have "0 \<le> q" by (simp add: q_def)
  ultimately have q: "\<bar>q\<bar> < 4294967296" by simp
  have 1: "\<bar>fl q\<bar> \<le> 2 * \<bar>q\<bar>" by (rule fl_abs_le)
  have 2: "\<bar>fl (fl q - 1)\<bar> \<le> 2 * \<bar>fl q - 1\<bar>" by (rule fl_abs_le)
  have 3: "\<bar>fl q - 1\<bar> \<le> \<bar>fl q\<bar> + 1" by (rule order_trans [OF abs_triangle_ineq4]) simp
  define A B C D where "A = \<bar>fl (fl q - 1)\<bar>" and "B = \<bar>fl q - 1\<bar>" and "C = \<bar>fl q\<bar>" and "D = \<bar>q\<bar>"
  have "C \<le> 2 * D" "A \<le> 2 * B" "B \<le> C + 1" "D < 4294967296"
    using 1 2 3 q by (simp_all only: A_def B_def C_def D_def)
  then have "A < 1099511627776" by linarith
  then have "\<bar>fl (fl q - 1)\<bar> < 1099511627776" by (simp only: A_def B_def C_def D_def)
  moreover have "(1099511627776::rat) \<le> MAX_VALUE" using MAX_VALUE_big by simp
  ultimately show ?thesis by (simp add: jsSub_def jsDiv_def q_def)
qed

lemma closest_of_loaded:
  assumes "loadImage E (sourceImageToDataUrl simage) = Inr img" "0 < naturalHeight img"
  shows "getClosestAspectRatio E simage
           = snd (scanRatios (jsDiv (of_nat (naturalWidth img)) (of_nat (naturalHeight img)))
                    supportedRatios (MAX_VALUE, js ''1:1''))"
  using assms by (simp add: getClosestAspectRatio_def Let_def)

text \<open>The computed differences for the ratios \<open>3/2\<close>, \<open>1\<close>, \<open>2333/2000\<close> and \<open>311/200\<close>.\<close>

lemma diffs_3_2:
  "jsSub (3 / 2) 1 = 1 / 2"
  "jsSub (3 / 2) (6003298303284871 / 4503599627370496) = 752101137770873 / 4503599627370496"
  "jsSub (3 / 2) (3 / 4) = 3 / 4"
  "jsSub (3 / 2) (8002896537837371 / 4503599627370496) = - (1247497096781627 / 4503599627370496)"
  "jsSub (3 / 2) (9 / 16) = 15 / 16"
  by (simp_all add: jsSub_def fl_eval)

lemma diffs_1:
  "jsSub 1 1 = 0"
  "jsSub 1 (6003298303284871 / 4503599627370496) = - (1499698675914375 / 4503599627370496)"
  "jsSub 1 (3 / 4) = 1 / 4"
  "jsSub 1 (8002896537837371 / 4503599627370496) = - (3499296910466875 / 4503599627370496)"
  "jsSub 1 (9 / 16) = 7 / 16"
  by (simp_all add: jsSub_def fl_eval)

lemma ratio_2333_2000: "jsDiv 2333 2000 = 1313362241331921 / 1125899906842624"
  by (simp add: jsDiv_def fl_eval)

lemma diffs_2333_2000:
  "jsSub (1313362241331921 / 1125899906842624) 1 = 187462334489297 / 1125899906842624"
  "jsSub (1313362241331921 / 1125899906842624) (6003298303284871 / 4503599627370496)
     = - (749849337957187 / 4503599627370496)"
  "jsSub (1313362241331921 / 1125899906842624) (3 / 4) = 468937311199953 / 1125899906842624"
  "jsSub (1313362241331921 / 1125899906842624) (8002896537837371 / 4503599627370496)
     = - (2749447572509687 / 4503599627370496)"
  "jsSub (1313362241331921 / 1125899906842624) (9 / 16) = 680043543732945 / 1125899906842624"
  by (simp_all add: jsSub_def fl_eval)

lemma ratio_311_200: "jsDiv 311 200 = 7003097420561121 / 4503599627370496"
  by (simp add: jsDiv_def fl_eval)

lemma diffs_311_200:
  "jsSub (7003097420561121 / 4503599627370496) 1 = 2499497793190625 / 4503599627370496"
  "jsSub (7003097420561121 / 4503599627370496) (6003298303284871 / 4503599627370496)
     = 499899558638125 / 2251799813685248"
  "jsSub (7003097420561121 / 4503599627370496) (3 / 4) = 3625397700033249 / 4503599627370496"
  "jsSub (7003097420561121 / 4503599627370496) (8002896537837371 / 4503599627370496)
     = - (499899558638125 / 2251799813685248)"
  "jsSub (7003097420561121 / 4503599627370496) (9 / 16) = 4469822630165217 / 4503599627370496"
  by (simp_all add: jsSub_def fl_eval)

lemma fl_table_exact: "fl (3 / 4) = 3 / 4" "fl (9 / 16) = 9 / 16"
  by (simp_all add: fl_eval)

lemmas table_eval = supportedRatios_def fl_small_integers fl_literals fl_table_exact

lemma scan_3_2: "snd (scanRatios (3 / 2) supportedRatios (MAX_VALUE, js ''1:1'')) = js ''4:3''"
  using MAX_VALUE_gt_1 by (simp add: table_eval diffs_3_2)

lemma scan_1: "snd (scanRatios 1 supportedRatios (MAX_VALUE, js ''1:1'')) = js ''1:1''"
  using MAX_VALUE_gt_1 by (simp add: table_eval diffs_1)

lemma scan_2333_2000:
  "snd (scanRatios (jsDiv 2333 2000) supportedRatios (MAX_VALUE, js ''1:1'')) = js ''4:3''"
  using MAX_VALUE_gt_1 by (simp add: table_eval ratio_2333_2000 diffs_2333_2000)

lemma scan_311_200:
  "snd (scanRatios (jsDiv 311 200) supportedRatios (MAX_VALUE, js ''1:1'')) = js ''4:3''"
  using MAX_VALUE_gt_1 by (simp add: table_eval ratio_311_200 diffs_311_200)



text \<open>
  A computed difference is the exact distance up to the rounding of the quotient and of
  the subtraction.
\<close>

lemma computed_diff_near:
  assumes "0 \<le> q"
  shows "\<bar>\<bar>jsSub (fl q) v\<bar> - \<bar>q - v\<bar>\<bar> \<le> (2 * q + \<bar>q - v\<bar>) / 2 ^ 53"
proof -
  define a where "a = fl q - q"
  define b where "b = fl (fl q - v) - (fl q - v)"
  define Q where "Q = q / 2 ^ 53"
  define T where "T = \<bar>q - v\<bar> / 2 ^ 53"
  define U where "U = \<bar>fl q - v\<bar> / 2 ^ 53"
  have a: "\<bar>a\<bar> \<le> Q" using fl_error [of q] assms by (simp add: a_def Q_def)
  have b: "\<bar>b\<bar> \<le> U" using fl_error [of "fl q - v"] by (simp add: b_def U_def)
  have Q0: "0 \<le> Q" using assms by (simp add: Q_def)
  have "Q \<le> q" using assms by (simp add: Q_def divide_le_eq)
  then have aq: "\<bar>a\<bar> \<le> q" using a by linarith
  have "\<bar>fl q - v\<bar> \<le> \<bar>q - v\<bar> + \<bar>a\<bar>" unfolding a_def by linarith
  then have "\<bar>fl q - v\<bar> \<le> \<bar>q - v\<bar> + q" using aq by linarith
  then have "\<bar>fl q - v\<bar> / 2 ^ 53 \<le> (\<bar>q - v\<bar> + q) / 2 ^ 53"
    by (rule divide_right_mono) simp
  then have U: "U \<le> T + Q" by (simp add: U_def T_def Q_def add_divide_distrib)
  have "jsSub (fl q) v - (q - v) = a + b" by (simp add: jsSub_def a_def b_def)
  then have "\<bar>jsSub (fl q) v - (q - v)\<bar> \<le> \<bar>a\<bar> + \<bar>b\<bar>" by simp
  moreover have "\<bar>\<bar>jsSub (fl q) v\<bar> - \<bar>q - v\<bar>\<bar> \<le> \<bar>jsSub (fl q) v - (q - v)\<bar>"
    by (rule abs_triangle_ineq3)
  ultimately have "\<bar>\<bar>jsSub (fl q) v\<bar> - \<bar>q - v\<bar>\<bar> \<le> 2 * Q + T"
    using a b U by linarith
  then show ?thesis by (simp add: Q_def T_def add_divide_distrib)
qed

text \<open>
  C6, as stated, fails. With the table read as the decimals it lists, a 2333 by 2000
  image is at the same exact distance \<open>0.1665\<close> from \<open>1.0\<close> and from \<open>1.333\<close>, no entry is
  nearer, and the first entry, \<open>1:1\<close>, should win the tie; the code returns \<open>4:3\<close>, because
  the computed differences are \<open>0.1665000000000001\<close> and \<open>0.16649999999999987\<close>. With the
  table read as the binary64 values of those decimals, a 311 by 200 image is strictly
  nearer to \<open>16:9\<close> than to \<open>4:3\<close>, and the code returns \<open>4:3\<close>, because the two computed
  differences are the same binary64 value.
\<close>

theorem closest_ratio_exact_distance_counterexample:
  "getClosestAspectRatio (sampleEnv (\<lambda>s. Inr (solid 2333 2000 white)) (\<lambda>a b c. Inl RemoteError))
      \<lparr>base64 = js ''AAAA'', mimeType = js ''image/png''\<rparr> = js ''4:3'' \<and>
   js ''4:3'' \<noteq> js ''1:1'' \<and>
   \<bar>2333 / 2000 - 1\<bar> = \<bar>2333 / 2000 - (1333 / 1000 :: rat)\<bar> \<and>
   \<bar>2333 / 2000 - 1\<bar> \<le> \<bar>2333 / 2000 - (75 / 100 :: rat)\<bar> \<and>
   \<bar>2333 / 2000 - 1\<bar> \<le> \<bar>2333 / 2000 - (1777 / 1000 :: rat)\<bar> \<and>
   \<bar>2333 / 2000 - 1\<bar> \<le> \<bar>2333 / 2000 - (5625 / 10000 :: rat)\<bar> \<and>
   getClosestAspectRatio (sampleEnv (\<lambda>s. Inr (solid 311 200 white)) (\<lambda>a b c. Inl RemoteError))
      \<lparr>base64 = js ''AAAA'', mimeType = js ''image/png''\<rparr> = js ''4:3'' \<and>
   js ''4:3'' \<noteq> js ''16:9'' \<and>
   \<bar>311 / 200 - fl (1777 / 1000)\<bar> < \<bar>311 / 200 - fl (1333 / 1000)\<bar> \<and>
   \<bar>jsSub (jsDiv 311 200) (fl (1777 / 1000))\<bar> = \<bar>jsSub (jsDiv 311 200) (fl (1333 / 1000))\<bar>"
proof -
  let ?s = "\<lparr>base64 = js ''AAAA'', mimeType = js ''image/png''\<rparr>"
  let ?E1 = "sampleEnv (\<lambda>s. Inr (solid 2333 2000 white)) (\<lambda>a b c. Inl RemoteError)"
  let ?E2 = "sampleEnv (\<lambda>s. Inr (solid 311 200 white)) (\<lambda>a b c. Inl RemoteError)"
  have 1: "getClosestAspectRatio ?E1 ?s = js ''4:3''"
    by (subst closest_of_loaded [of _ _ "solid 2333 2000 white"])
      (simp_all add: sampleEnv_simps solid_simps scan_2333_2000)
  have 2: "getClosestAspectRatio ?E2 ?s = js ''4:3''"
    by (subst closest_of_loaded [of _ _ "solid 311 200 white"])
      (simp_all add: sampleEnv_simps solid_simps scan_311_200)
  have 3: "js ''4:3'' \<noteq> js ''1:1''" "js ''4:3'' \<noteq> js ''16:9''" by (simp_all add: js_def)
  have 4: "\<bar>311 / 200 - fl (1777 / 1000)\<bar> < \<bar>311 / 200 - fl (1333 / 1000)\<bar>"
    unfolding fl_literals by simp
  have 5: "\<bar>jsSub (jsDiv 311 200) (fl (1777 / 1000))\<bar> = \<bar>jsSub (jsDiv 311 200) (fl (1333 / 1000))\<bar>"
    unfolding fl_literals ratio_311_200 diffs_311_200 by simp
  show ?thesis
    using 1 2 3 4 5 by simp
qed


text \<open>
  C6, amended. The quotient \<open>width / height\<close> and each difference \<open>ratio - value\<close> are
  binary64 operations, and the table holds the binary64 values of its decimals. For a
  decoded image of positive height (and sides below \<open>2^32\<close>), \<open>getClosestAspectRatio\<close>
  returns the label of an entry whose computed difference \<open>|ratio - value|\<close> is minimal,
  and of the first such entry in the table's order. In exact terms the entry returned
  is nearest up to rounding: its exact distance from \<open>q = width / height\<close> exceeds no
  other entry's exact distance by more than the \<open>2^-53\<close> part of \<open>4 * q\<close> plus the two
  distances. For the ratio 3/2 it returns \<open>4:3\<close>, for the ratio 1 it returns \<open>1:1\<close>; for
  an image of height 0 and for an image that cannot be decoded it returns \<open>1:1\<close>.
\<close>

theorem closest_ratio_first_minimum:
  "(loadImage E (sourceImageToDataUrl simage) = Inr img \<and> 0 < naturalHeight img \<and>
    naturalWidth img < 2 ^ 32 \<and> naturalHeight img < 2 ^ 32 \<and>
    q = of_nat (naturalWidth img) / of_nat (naturalHeight img) \<and>
    ratio = jsDiv (of_nat (naturalWidth img)) (of_nat (naturalHeight img)) \<longrightarrow>
      (\<exists>i<length supportedRatios.
         getClosestAspectRatio E simage = fst (supportedRatios ! i) \<and>
         (\<forall>j<length supportedRatios.
            \<bar>jsSub ratio (snd (supportedRatios ! i))\<bar> \<le> \<bar>jsSub ratio (snd (supportedRatios ! j))\<bar>) \<and>
         (\<forall>j<i.
            \<bar>jsSub ratio (snd (supportedRatios ! i))\<bar> < \<bar>jsSub ratio (snd (supportedRatios ! j))\<bar>) \<and>
         (\<forall>j<length supportedRatios.
            \<bar>q - snd (supportedRatios ! i)\<bar>
            \<le> \<bar>q - snd (supportedRatios ! j)\<bar>
               + (4 * q + \<bar>q - snd (supportedRatios ! i)\<bar> + \<bar>q - snd (supportedRatios ! j)\<bar>) / 2 ^ 53)) \<and>
      (q = 3 / 2 \<longrightarrow> getClosestAspectRatio E simage = js ''4:3'') \<and>
      (q = 1 \<longrightarrow> getClosestAspectRatio E simage = js ''1:1'')) \<and>
   (loadImage E (sourceImageToDataUrl simage) = Inr img \<and> naturalHeight img = 0 \<longrightarrow>
      getClosestAspectRatio E simage = js ''1:1'') \<and>
   (loadImage E (sourceImageToDataUrl simage) = Inl e \<longrightarrow>
      getClosestAspectRatio E simage = js ''1:1'')"
proof (intro conjI impI)
  assume a: "loadImage E (sourceImageToDataUrl simage) = Inr img \<and> 0 < naturalHeight img \<and>
    naturalWidth img < 2 ^ 32 \<and> naturalHeight img < 2 ^ 32 \<and>
    q = of_nat (naturalWidth img) / of_nat (naturalHeight img) \<and>
    ratio = jsDiv (of_nat (naturalWidth img)) (of_nat (naturalHeight img))"
  then have ratio: "ratio = fl q" and q0: "0 \<le> q" by (simp_all add: jsDiv_def)
  have run: "getClosestAspectRatio E simage
               = snd (scanRatios ratio supportedRatios (MAX_VALUE, js ''1:1''))"
    using a by (simp add: closest_of_loaded)
  obtain m' c' where mc: "scanRatios ratio supportedRatios (MAX_VALUE, js ''1:1'') = (m', c')"
    by (cases "scanRatios ratio supportedRatios (MAX_VALUE, js ''1:1'')")
  have first: "\<bar>jsSub ratio (snd (supportedRatios ! 0))\<bar> < MAX_VALUE"
    using first_diff_small [of "naturalHeight img" "naturalWidth img"] a
    by (simp add: table_eval)
  have "\<not> (\<forall>j<length supportedRatios. MAX_VALUE \<le> \<bar>jsSub ratio (snd (supportedRatios ! j))\<bar>)"
  proof
    assume "\<forall>j<length supportedRatios. MAX_VALUE \<le> \<bar>jsSub ratio (snd (supportedRatios ! j))\<bar>"
    moreover have "0 < length supportedRatios" by (simp add: supportedRatios_def)
    ultimately have "MAX_VALUE \<le> \<bar>jsSub ratio (snd (supportedRatios ! 0))\<bar>" by blast
    then show False using first by simp
  qed
  with scanRatios_first_min [OF mc]
  obtain i where i: "i < length supportedRatios" "c' = fst (supportedRatios ! i)"
    "m' = \<bar>jsSub ratio (snd (supportedRatios ! i))\<bar>"
    "\<forall>j<length supportedRatios. m' \<le> \<bar>jsSub ratio (snd (supportedRatios ! j))\<bar>"
    "\<forall>j<i. m' < \<bar>jsSub ratio (snd (supportedRatios ! j))\<bar>"
    by blast
  have near: "\<bar>q - snd (supportedRatios ! i)\<bar>
            \<le> \<bar>q - snd (supportedRatios ! j)\<bar>
               + (4 * q + \<bar>q - snd (supportedRatios ! i)\<bar> + \<bar>q - snd (supportedRatios ! j)\<bar>) / 2 ^ 53"
    if j: "j < length supportedRatios" for j
  proof -
    define vi vj where "vi = snd (supportedRatios ! i)" and "vj = snd (supportedRatios ! j)"
    define di dj where "di = \<bar>jsSub (fl q) vi\<bar>" and "dj = \<bar>jsSub (fl q) vj\<bar>"
    define ti tj where "ti = \<bar>q - vi\<bar>" and "tj = \<bar>q - vj\<bar>"
    define Q where "Q = q / 2 ^ 53"
    define Ti Tj where "Ti = ti / 2 ^ 53" and "Tj = tj / 2 ^ 53"
    have "\<bar>di - ti\<bar> \<le> (2 * q + ti) / 2 ^ 53" "\<bar>dj - tj\<bar> \<le> (2 * q + tj) / 2 ^ 53"
      unfolding di_def dj_def ti_def tj_def by (rule computed_diff_near [OF q0])+
    then have 1: "\<bar>di - ti\<bar> \<le> 2 * Q + Ti" "\<bar>dj - tj\<bar> \<le> 2 * Q + Tj"
      by (simp_all add: Q_def Ti_def Tj_def add_divide_distrib)
    have 2: "di \<le> dj"
      using i(4) j by (simp add: i(3) di_def dj_def vi_def vj_def ratio)
    have "ti \<le> tj + (4 * Q + Ti + Tj)" using 1 2 by linarith
    then show ?thesis
      by (simp add: Q_def Ti_def Tj_def ti_def tj_def vi_def vj_def add_divide_distrib)
  qed
  show "\<exists>i<length supportedRatios.
         getClosestAspectRatio E simage = fst (supportedRatios ! i) \<and>
         (\<forall>j<length supportedRatios.
            \<bar>jsSub ratio (snd (supportedRatios ! i))\<bar> \<le> \<bar>jsSub ratio (snd (supportedRatios ! j))\<bar>) \<and>
         (\<forall>j<i.
            \<bar>jsSub ratio (snd (supportedRatios ! i))\<bar> < \<bar>jsSub ratio (snd (supportedRatios ! j))\<bar>) \<and>
         (\<forall>j<length supportedRatios.
            \<bar>q - snd (supportedRatios ! i)\<bar>
            \<le> \<bar>q - snd (supportedRatios ! j)\<bar>
               + (4 * q + \<bar>q - snd (supportedRatios ! i)\<bar> + \<bar>q - snd (supportedRatios ! j)\<bar>) / 2 ^ 53)"
    using i near by (intro exI [of _ i]) (simp add: run mc)
  show "getClosestAspectRatio E simage = js ''4:3''" if "q = 3 / 2"
    unfolding run ratio that by (simp add: fl_small_integers scan_3_2)
  show "getClosestAspectRatio E simage = js ''1:1''" if "q = 1"
    unfolding run ratio that by (simp add: fl_small_integers scan_1)
next
  assume "loadImage E (sourceImageToDataUrl simage) = Inr img \<and> naturalHeight img = 0"
  then show "getClosestAspectRatio E simage = js ''1:1''"
    by (simp add: getClosestAspectRatio_def)
next
  assume "loadImage E (sourceImageToDataUrl simage) = Inl e"
  then show "getClosestAspectRatio E simage = js ''1:1''"
    by (simp add: getClosestAspectRatio_def)
qed

theorem closest_ratio_first_minimum_witness:
  "getClosestAspectRatio (sampleEnv (\<lambda>s. Inr (solid 3 2 white)) (\<lambda>a b c. Inl RemoteError))
      \<lparr>base64 = js ''AAAA'', mimeType = js ''image/png''\<rparr> = js ''4:3'' \<and>
   getClosestAspectRatio (sampleEnv (\<lambda>s. Inr (solid 7 7 white)) (\<lambda>a b c. Inl RemoteError))
      \<lparr>base64 = js ''AAAA'', mimeType = js ''image/png''\<rparr> = js ''1:1'' \<and>
   getClosestAspectRatio (sampleEnv (\<lambda>s. Inr (solid 7 0 white)) (\<lambda>a b c. Inl RemoteError))
      \<lparr>base64 = js ''AAAA'', mimeType = js ''image/png''\<rparr> = js ''1:1'' \<and>
   getClosestAspectRatio (sampleEnv (\<lambda>s. Inl LoadError) (\<lambda>a b c. Inl RemoteError))
      \<lparr>base64 = js ''AAAA'', mimeType = js ''image/png''\<rparr> = js ''1:1''"
proof -
  let ?s = "\<lparr>base64 = js ''AAAA'', mimeType = js ''image/png''\<rparr>"
  let ?E1 = "sampleEnv (\<lambda>s. Inr (solid 3 2 white)) (\<lambda>a b c. Inl RemoteError)"
  let ?E2 = "sampleEnv (\<lambda>s. Inr (solid 7 7 white)) (\<lambda>a b c. Inl RemoteError)"
  let ?E3 = "sampleEnv (\<lambda>s. Inl LoadError) (\<lambda>a b c. Inl RemoteError)"
  let ?E4 = "sampleEnv (\<lambda>s. Inr (solid 7 0 white)) (\<lambda>a b c. Inl RemoteError)"
  have h1: "loadImage ?E1 (sourceImageToDataUrl ?s) = Inr (solid 3 2 white) \<and>
            0 < naturalHeight (solid 3 2 white) \<and> naturalWidth (solid 3 2 white) < 2 ^ 32 \<and>
            naturalHeight (solid 3 2 white) < 2 ^ 32 \<and>
            (3 / 2 :: rat) = of_nat (naturalWidth (solid 3 2 white)) / of_nat (naturalHeight (solid 3 2 white)) \<and>
            jsDiv 3 2 = jsDiv (of_nat (naturalWidth (solid 3 2 white))) (of_nat (naturalHeight (solid 3 2 white)))"
    by (simp add: sampleEnv_simps solid_simps)
  have h2: "loadImage ?E2 (sourceImageToDataUrl ?s) = Inr (solid 7 7 white) \<and>
            0 < naturalHeight (solid 7 7 white) \<and> naturalWidth (solid 7 7 white) < 2 ^ 32 \<and>
            naturalHeight (solid 7 7 white) < 2 ^ 32 \<and>
            (1 :: rat) = of_nat (naturalWidth (solid 7 7 white)) / of_nat (naturalHeight (solid 7 7 white)) \<and>
            jsDiv 7 7 = jsDiv (of_nat (naturalWidth (solid 7 7 white))) (of_nat (naturalHeight (solid 7 7 white)))"
    by (simp add: sampleEnv_simps solid_simps)
  have h3: "loadImage ?E3 (sourceImageToDataUrl ?s) = Inl LoadError"
    by (simp add: sampleEnv_simps)
  have h4: "loadImage ?E4 (sourceImageToDataUrl ?s) = Inr (solid 7 0 white) \<and>
            naturalHeight (solid 7 0 white) = 0"
    by (simp add: sampleEnv_simps solid_simps)
  show ?thesis
    using closest_ratio_first_minimum [of ?E1 ?s "solid 3 2 white" "3 / 2" "jsDiv 3 2" LoadError] h1
      closest_ratio_first_minimum [of ?E2 ?s "solid 7 7 white" 1 "jsDiv 7 7" LoadError] h2
      closest_ratio_first_minimum [of ?E3 ?s "solid 7 7 white" 1 1 LoadError] h3
      closest_ratio_first_minimum [of ?E4 ?s "solid 7 0 white" 1 1 LoadError] h4
    by blast
qed

section \<open>Properties of the composites\<close>

lemma strictCompositeCanvas_size:
  "naturalWidth (strictCompositeCanvas rs orig gen maskImg) = naturalWidth orig"
  "naturalHeight (strictCompositeCanvas rs orig gen maskImg) = naturalHeight orig"
  by (simp_all add: strictCompositeCanvas_def Let_def)

lemma drawImage_pixel_origin:
  assumes "filter_of ctx = None" "x < naturalWidth (canvas ctx)" "y < naturalHeight (canvas ctx)"
  shows "pixelAt (canvas (drawImage ctx img 0 0)) x y
           = blend (globalCompositeOperation ctx) (imageLayer img 0 0 (int x) (int y))
               (pixelAt (canvas ctx) x y)"
  unfolding drawImage_def using assms by (simp add: paint_pixel)

lemma drawImageScaled_pixel_origin:
  assumes "filter_of ctx = None" "x < naturalWidth (canvas ctx)" "y < naturalHeight (canvas ctx)"
  shows "pixelAt (canvas (drawImageScaled rs ctx img 0 0 w h)) x y
           = blend (globalCompositeOperation ctx) (imageLayer (rs img w h) 0 0 (int x) (int y))
               (pixelAt (canvas ctx) x y)"
  unfolding drawImageScaled_def using assms by (simp add: paint_pixel)

lemma strictCompositeCanvas_pixel:
  assumes "x < naturalWidth orig" "y < naturalHeight orig"
  shows "pixelAt (strictCompositeCanvas rs orig gen maskImg) x y
           = blend SourceOver
               (blend DestinationIn
                  (imageLayer (rs maskImg (naturalWidth orig) (naturalHeight orig)) 0 0 (int x) (int y))
                  (imageLayer (rs gen (naturalWidth orig) (naturalHeight orig)) 0 0 (int x) (int y)))
               (pixelAt orig x y)"
  using assms
  by (simp add: strictCompositeCanvas_def Let_def drawImage_pixel_origin
      drawImageScaled_pixel_origin imageLayer_origin)

lemma blend_destination_in_zero: "alpha s = 0 \<Longrightarrow> blend DestinationIn s d = transparent"
  by (simp add: blend.simps transparent_def)

lemma blend_destination_in_one: "alpha s = 1 \<Longrightarrow> blend DestinationIn s d = d"
  by (simp add: blend.simps)

lemma imageLayer_alpha_zero:
  "uniformAlpha 0 img \<Longrightarrow> alpha (imageLayer img 0 0 (int x) (int y)) = 0"
  by (simp add: imageLayer_def uniformAlpha_def transparent_def)

lemma resampled_layer:
  assumes "resamplerOk rs" "x < w" "y < h"
  shows "imageLayer (rs img w h) 0 0 (int x) (int y) = pixelAt (rs img w h) x y"
  using assms by (simp add: imageLayer_origin resamplerOk_def)

lemma resampled_alpha:
  assumes "resamplerOk rs" "0 < naturalWidth img" "0 < naturalHeight img" "uniformAlpha a img"
  shows "uniformAlpha a (rs img w h)"
  using assms unfolding resamplerOk_def by blast

lemma nearest_ok: "resamplerOk nearest"
proof -
  have "uniformAlpha a (nearest img w h)"
    if "0 < naturalWidth img" "0 < naturalHeight img" "uniformAlpha a img" for img w h a
    unfolding uniformAlpha_def
  proof (intro allI impI)
    fix x y
    assume "x < naturalWidth (nearest img w h)" "y < naturalHeight (nearest img w h)"
    then have xy: "x < w" "y < h" by (simp_all add: nearest_def)
    have "x * naturalWidth img < w * naturalWidth img" using xy that(1) by simp
    then have 1: "x * naturalWidth img div w < naturalWidth img"
      using xy(1) by (simp add: less_mult_imp_div_less mult.commute)
    have "y * naturalHeight img < h * naturalHeight img" using xy that(2) by simp
    then have 2: "y * naturalHeight img div h < naturalHeight img"
      using xy(2) by (simp add: less_mult_imp_div_less mult.commute)
    show "alpha (pixelAt (nearest img w h) x y) = a"
      using that(3) 1 2 by (simp add: nearest_def uniformAlpha_def)
  qed
  then show ?thesis
    by (simp add: resamplerOk_def nearest_def)
qed



text \<open>
  A mask whose alpha is zero at every pixel keeps the original: the canvas that
  \<open>strictComposite\<close> encodes is then pixel-identical to the original, whatever the
  mask's colour. (The resampler is assumed to keep a uniform alpha, and the decoded
  mask to have positive size.)
\<close>

lemma strictComposite_alpha_zero_mask:
  assumes "loadImage E originalB64 = Inr orig" "loadImage E generatedB64 = Inr gen"
    "loadImage E maskB64 = Inr maskImg"
    "resamplerOk (resample E)" "0 < naturalWidth maskImg" "0 < naturalHeight maskImg"
    "uniformAlpha 0 maskImg"
  shows "strictComposite E originalB64 generatedB64 maskB64
           = Inr (toDataURL E (strictCompositeCanvas (resample E) orig gen maskImg) (js ''image/png'')) \<and>
         pixel_identical (strictCompositeCanvas (resample E) orig gen maskImg) orig"
proof -
  let ?W = "naturalWidth orig" and ?H = "naturalHeight orig"
  have m: "uniformAlpha 0 (resample E maskImg ?W ?H)"
    using assms(4-7) by (rule resampled_alpha)
  have "pixelAt (strictCompositeCanvas (resample E) orig gen maskImg) x y = pixelAt orig x y"
    if "x < ?W" "y < ?H" for x y
    using that by (simp add: strictCompositeCanvas_pixel blend_destination_in_zero imageLayer_alpha_zero [OF m])
  then have "pixel_identical (strictCompositeCanvas (resample E) orig gen maskImg) orig"
    by (simp add: pixel_identical_def strictCompositeCanvas_size)
  then show ?thesis
    using assms(1-3) by (simp add: strictComposite_def strictComposite_try_def)
qed


text \<open>
  C2, amended. When the mask is opaque at every pixel, the canvas that
  \<open>strictComposite\<close> encodes has the original's size and each pixel is the candidate,
  resampled to that size, drawn source-over the original's pixel; when the candidate
  is opaque everywhere the result is pixel-identical to the resampled candidate.
\<close>

theorem strictComposite_opaque_mask:
  assumes "loadImage E originalB64 = Inr orig" "loadImage E generatedB64 = Inr gen"
    "loadImage E maskB64 = Inr maskImg"
    "resamplerOk (resample E)" "0 < naturalWidth maskImg" "0 < naturalHeight maskImg"
    "uniformAlpha 1 maskImg"
  shows "strictComposite E originalB64 generatedB64 maskB64
           = Inr (toDataURL E (strictCompositeCanvas (resample E) orig gen maskImg) (js ''image/png'')) \<and>
         naturalWidth (strictCompositeCanvas (resample E) orig gen maskImg) = naturalWidth orig \<and>
         naturalHeight (strictCompositeCanvas (resample E) orig gen maskImg) = naturalHeight orig \<and>
         (\<forall>x<naturalWidth orig. \<forall>y<naturalHeight orig.
            pixelAt (strictCompositeCanvas (resample E) orig gen maskImg) x y
              = blend SourceOver
                  (pixelAt (resample E gen (naturalWidth orig) (naturalHeight orig)) x y)
                  (pixelAt orig x y)) \<and>
         (0 < naturalWidth gen \<and> 0 < naturalHeight gen \<and> uniformAlpha 1 gen \<longrightarrow>
            pixel_identical (strictCompositeCanvas (resample E) orig gen maskImg)
              (resample E gen (naturalWidth orig) (naturalHeight orig)))"
proof -
  let ?W = "naturalWidth orig" and ?H = "naturalHeight orig"
  let ?C = "strictCompositeCanvas (resample E) orig gen maskImg"
  let ?G = "resample E gen ?W ?H"
  have m: "uniformAlpha 1 (resample E maskImg ?W ?H)"
    using assms(4-7) by (rule resampled_alpha)
  have px: "pixelAt ?C x y = blend SourceOver (pixelAt ?G x y) (pixelAt orig x y)"
    if "x < ?W" "y < ?H" for x y
  proof -
    have "alpha (imageLayer (resample E maskImg ?W ?H) 0 0 (int x) (int y)) = 1"
      using m that assms(4) by (simp add: resampled_layer uniformAlpha_def resamplerOk_def)
    then show ?thesis
      using that assms(4)
      by (simp add: strictCompositeCanvas_pixel blend_destination_in_one resampled_layer)
  qed
  have ident: "pixel_identical ?C ?G"
    if "0 < naturalWidth gen \<and> 0 < naturalHeight gen \<and> uniformAlpha 1 gen"
  proof -
    have "uniformAlpha 1 ?G" using assms(4) that by (simp add: resampled_alpha)
    then have "alpha (pixelAt ?G x y) = 1" if "x < ?W" "y < ?H" for x y
      using that assms(4) by (simp add: uniformAlpha_def resamplerOk_def)
    then show ?thesis
      using assms(4)
      by (simp add: pixel_identical_def strictCompositeCanvas_size px blend_opaque_over
          resamplerOk_def)
  qed
  show ?thesis
    using assms(1-3) px ident
    by (simp add: strictComposite_def strictComposite_try_def strictCompositeCanvas_size)
qed

text \<open>
  C2, as stated, fails for a candidate with transparency: the masked candidate is
  drawn over the original, so the original shows through. With a red original, a
  half-transparent blue candidate and an opaque white mask the result is an opaque
  mix, not the candidate.
\<close>

theorem strictComposite_translucent_candidate_counterexample:
  "uniformAlpha 1 (solid 1 1 white) \<and>
   \<not> pixel_identical
       (strictCompositeCanvas nearest (solid 1 1 opaque_red) (solid 1 1 half_blue) (solid 1 1 white))
       (nearest (solid 1 1 half_blue) 1 1)"
proof -
  have "pixelAt (strictCompositeCanvas nearest (solid 1 1 opaque_red) (solid 1 1 half_blue) (solid 1 1 white)) 0 0
          = \<lparr>red = 1 / 2, green = 0, blue = 1 / 2, alpha = 1\<rparr>"
    by (simp add: strictCompositeCanvas_pixel solid_def nearest_def imageLayer_def
        blend_destination_in_one white_def)
       (simp add: blend.simps half_blue_def opaque_red_def)
  moreover have "pixelAt (nearest (solid 1 1 half_blue) 1 1) 0 0 = half_blue"
    by (simp add: solid_def nearest_def)
  moreover have "\<lparr>red = 1 / 2, green = 0, blue = 1 / 2, alpha = 1\<rparr> \<noteq> half_blue"
    by (simp add: half_blue_def)
  ultimately have "\<not> pixel_identical
       (strictCompositeCanvas nearest (solid 1 1 opaque_red) (solid 1 1 half_blue) (solid 1 1 white))
       (nearest (solid 1 1 half_blue) 1 1)"
    by (auto simp add: pixel_identical_def strictCompositeCanvas_size solid_def nearest_def)
  then show ?thesis by (simp add: uniformAlpha_def solid_def white_def)
qed

text \<open>
  C3. \<open>strictComposite\<close> always returns a string and never an error; when decoding the
  original, the candidate or the mask fails it returns the candidate string it was
  given.
\<close>

theorem strictComposite_falls_back:
  "(\<exists>url. strictComposite E originalB64 generatedB64 maskB64 = Inr url) \<and>
   ((\<exists>e. loadImage E originalB64 = Inl e) \<or> (\<exists>e. loadImage E generatedB64 = Inl e) \<or>
    (\<exists>e. loadImage E maskB64 = Inl e)
    \<longrightarrow> strictComposite E originalB64 generatedB64 maskB64 = Inr generatedB64)"
  by (auto simp add: strictComposite_def strictComposite_try_def split: sum.splits)

lemma paint_pixel_filtered:
  "x < naturalWidth (canvas ctx) \<Longrightarrow> y < naturalHeight (canvas ctx) \<Longrightarrow>
   pixelAt (canvas (paint ctx L)) x y
     = blend (globalCompositeOperation ctx)
         ((case filter_of ctx of None \<Rightarrow> L | Some f \<Rightarrow> f L) (int x) (int y))
         (pixelAt (canvas ctx) x y)"
  by (simp add: paint_def Let_def)

text \<open>
  Each pixel of the result: the foreground, stretched over the whole canvas and kept
  where the (possibly blurred) mask has alpha, drawn over the background.
\<close>

lemma compositeCanvas_pixel:
  assumes "x < naturalWidth bg" "y < naturalHeight bg"
  shows "pixelAt (compositeCanvas E bg fg box maskImg opts) x y
           = blend SourceOver
               (blend SourceIn
                  (imageLayer (resample E fg (naturalWidth bg) (naturalHeight bg)) 0 0 (int x) (int y))
                  ((if edgeBlend opts > 0 then blur E (edgeBlend opts) (imageLayer maskImg 0 0)
                    else imageLayer maskImg 0 0) (int x) (int y)))
               (pixelAt bg x y)"
  using assms
  by (simp add: compositeCanvas_def Let_def drawImage_pixel_origin drawImageScaled_pixel_origin
      imageLayer_origin drawImage_def paint_pixel_filtered)

text \<open>
  C7. The result of \<open>compositeImage\<close> does not depend on the \<open>box\<close> argument: any two
  boxes give the same result for the same background, foreground, mask and options.
\<close>

theorem compositeImage_ignores_box:
  "compositeImage E bgImage fgImage box1 maskImage opts
     = compositeImage E bgImage fgImage box2 maskImage opts"
proof -
  have "compositeCanvas E bg fg box1 maskImg opts = compositeCanvas E bg fg box2 maskImg opts"
    for bg fg maskImg
    by (simp add: compositeCanvas_def)
  then show ?thesis
    by (simp add: compositeImage_def cong: sum.case_cong)
qed

section \<open>The composites on sample images\<close>

theorem strictComposite_opaque_mask_witness:
  "strictComposite
     (sampleEnv (sampleDecode [(js ''o'', solid 2 2 opaque_red), (js ''g'', solid 1 1 opaque_blue),
                               (js ''m'', solid 1 1 white)]) (\<lambda>a b c. Inl RemoteError))
     (js ''o'') (js ''g'') (js ''m'') = Inr (js ''data:image/png;base64,AAAA'') \<and>
   pixelAt (strictCompositeCanvas nearest (solid 2 2 opaque_red) (solid 1 1 opaque_blue) (solid 1 1 white)) 1 0
     = opaque_blue \<and>
   pixel_identical
     (strictCompositeCanvas nearest (solid 2 2 opaque_red) (solid 1 1 opaque_blue) (solid 1 1 white))
     (nearest (solid 1 1 opaque_blue) 2 2)"
proof -
  let ?d = "sampleDecode [(js ''o'', solid 2 2 opaque_red), (js ''g'', solid 1 1 opaque_blue),
                               (js ''m'', solid 1 1 white)]"
  let ?E = "sampleEnv ?d (\<lambda>a b c. Inl RemoteError)"
  have l: "loadImage ?E (js ''o'') = Inr (solid 2 2 opaque_red)"
    "loadImage ?E (js ''g'') = Inr (solid 1 1 opaque_blue)"
    "loadImage ?E (js ''m'') = Inr (solid 1 1 white)"
    by (simp_all add: sampleEnv_simps sampleDecode_def js_def)
  have r: "resamplerOk (resample ?E)" by (simp add: sampleEnv_simps nearest_ok)
  have p: "0 < naturalWidth (solid 1 1 white)" "0 < naturalHeight (solid 1 1 white)"
    by (simp_all add: solid_simps)
  have u: "uniformAlpha 1 (solid 1 1 white)"
    using uniformAlpha_solid [of white 1 1] by (simp add: white_def)
  have ug: "0 < naturalWidth (solid 1 1 opaque_blue) \<and> 0 < naturalHeight (solid 1 1 opaque_blue) \<and>
            uniformAlpha 1 (solid 1 1 opaque_blue)"
    using uniformAlpha_solid [of opaque_blue 1 1] by (simp add: opaque_blue_def solid_simps)
  note t = strictComposite_opaque_mask [OF l r p u]
  have b: "blend SourceOver (pixelAt (nearest (solid 1 1 opaque_blue) 2 2) 1 0) (pixelAt (solid 2 2 opaque_red) 1 0)
             = opaque_blue"
    by (simp add: nearest_def solid_simps blend_opaque_over opaque_blue_def)
  have q: "\<forall>x<2. \<forall>y<2.
            pixelAt (strictCompositeCanvas nearest (solid 2 2 opaque_red) (solid 1 1 opaque_blue) (solid 1 1 white)) x y
              = blend SourceOver (pixelAt (nearest (solid 1 1 opaque_blue) 2 2) x y) (pixelAt (solid 2 2 opaque_red) x y)"
    using t by (simp add: sampleEnv_simps solid_simps)
  have "pixelAt (strictCompositeCanvas nearest (solid 2 2 opaque_red) (solid 1 1 opaque_blue) (solid 1 1 white)) 1 0
     = opaque_blue"
    using q [rule_format, of 1 0] b by simp
  then show ?thesis
    using t ug by (simp add: sampleEnv_simps solid_simps)
qed

theorem strictComposite_falls_back_witness:
  "strictComposite
     (sampleEnv (sampleDecode [(js ''o'', solid 2 2 opaque_red), (js ''g'', solid 1 1 opaque_blue)])
        (\<lambda>a b c. Inl RemoteError))
     (js ''o'') (js ''g'') (js ''m'') = Inr (js ''g'')"
proof -
  let ?E = "sampleEnv (sampleDecode [(js ''o'', solid 2 2 opaque_red), (js ''g'', solid 1 1 opaque_blue)])
        (\<lambda>a b c. Inl RemoteError)"
  have "\<exists>e. loadImage ?E (js ''m'') = Inl e"
    by (simp add: sampleEnv_simps sampleDecode_def js_def)
  then show ?thesis
    using strictComposite_falls_back [of ?E "js ''o''" "js ''g''" "js ''m''"] by blast
qed

section \<open>Properties of outpainting\<close>

lemma outpaintFinalCanvas_size:
  "naturalWidth (outpaintFinalCanvas rs img g resultImg) = nat (canvasWidth g)"
  "naturalHeight (outpaintFinalCanvas rs img g resultImg) = nat (canvasHeight g)"
  by (simp_all add: outpaintFinalCanvas_def Let_def)

text \<open>
  Each pixel of the final canvas: the source, where it lies, drawn over the answer
  stretched to the canvas size.
\<close>

lemma outpaintFinalCanvas_pixel:
  assumes X: "X < nat (canvasWidth g)" and Y: "Y < nat (canvasHeight g)"
  shows "pixelAt (outpaintFinalCanvas rs img g resultImg) X Y
           = blend SourceOver (imageLayer img (offset_dx g) (offset_dy g) (int X) (int Y))
               (imageLayer (rs resultImg (nat (canvasWidth g)) (nat (canvasHeight g))) 0 0 (int X) (int Y))"
proof -
  let ?c0 = "createCanvas (nat (canvasWidth g)) (nat (canvasHeight g))"
  let ?c1 = "drawImageScaled rs ?c0 resultImg 0 0 (nat (canvasWidth g)) (nat (canvasHeight g))"
  have p1: "pixelAt (canvas ?c1) X Y
          = imageLayer (rs resultImg (nat (canvasWidth g)) (nat (canvasHeight g))) 0 0 (int X) (int Y)"
    unfolding drawImageScaled_def using X Y by (simp add: paint_pixel)
  have d: "pixelAt (canvas (drawImage ?c1 img (offset_dx g) (offset_dy g))) X Y
          = blend (globalCompositeOperation ?c1)
              (imageLayer img (offset_dx g) (offset_dy g) (int X) (int Y)) (pixelAt (canvas ?c1) X Y)"
    unfolding drawImage_def by (rule paint_pixel) (use X Y in simp_all)
  have g1: "globalCompositeOperation ?c1 = SourceOver" by simp
  show ?thesis
    unfolding outpaintFinalCanvas_def Let_def by (simp only: d g1 p1)
qed

lemma outpaintImage_result:
  assumes "loadImage E (sourceImageToDataUrl sourceImage) = Inr img"
    "g = padGeometry (naturalWidth img) (naturalHeight img) r"
    "generateContent E
       (secondPiece (toDataURL E (outpaintPaddedCanvas img g) (js ''image/png'')))
       (secondPiece (toDataURL E (outpaintMaskCanvas img g) (js ''image/png'')))
       (js ''Outpaint Task: '' @ prompt) = Inr parts"
    "find hasInlineData parts = Some (InlineDataPart mime payload)" "payload \<noteq> []"
    "loadImage E (js ''data:'' @ (if mime = [] then js ''image/png'' else mime)
                    @ js '';base64,'' @ payload) = Inr resultImg"
  shows "outpaintImage E sourceImage r prompt
           = Inr (Some (toDataURL E (outpaintFinalCanvas (resample E) img g resultImg)
                          (js ''image/png'')))"
  using assms(1,3-6) by (simp add: outpaintImage_def Let_def assms(2) [symmetric])

lemma outpaintImage_rest_result:
  "generateImageRest E (js ''Outpaint/Extend: '' @ prompt) (js ''16:9'') 1 = i # others \<Longrightarrow> i \<noteq> [] \<Longrightarrow>
   outpaintImage_rest E sourceImage r prompt = Inr (Some i)"
  "generateImageRest E (js ''Outpaint/Extend: '' @ prompt) (js ''16:9'') 1 = [] \<Longrightarrow>
   outpaintImage_rest E sourceImage r prompt = Inr None"
  by (simp_all add: outpaintImage_rest_def)

text \<open>
  C8, as stated, fails. In the body that has a finishing step the source is drawn
  source-over the stretched answer, so a source pixel that is not opaque lets the
  answer show through: a half-transparent blue source over a red answer gives a
  pixel that is not the source's. The other body of \<open>outpaintImage\<close> has no finishing
  step at all and hands back the remote image as it came.
\<close>

theorem outpaint_source_not_kept_counterexample:
  "pixelAt (outpaintFinalCanvas nearest (solid 1 1 half_blue) (padGeometry 1 1 1) (solid 1 1 opaque_red))
      (nat (offset_dx (padGeometry 1 1 1)) + 0) (nat (offset_dy (padGeometry 1 1 1)) + 0)
     \<noteq> pixelAt (solid 1 1 half_blue) 0 0 \<and>
   outpaintImage_rest
     ((sampleEnv (\<lambda>s. Inr (solid 1 1 opaque_blue)) (\<lambda>a b c. Inl RemoteError))
        \<lparr>generateImageRest := (\<lambda>p a n. [js ''data:image/png;base64,BBBB''])\<rparr>)
     \<lparr>base64 = js ''AAAA'', mimeType = js ''image/png''\<rparr> 1 (js ''sky'')
     = Inr (Some (js ''data:image/png;base64,BBBB''))"
proof -
  have g: "padGeometry 1 1 1 = \<lparr>canvasWidth = 1, canvasHeight = 1, offset_dx = 0, offset_dy = 0\<rparr>"
    by (simp add: geometry_eval)
  let ?g = "\<lparr>canvasWidth = 1, canvasHeight = 1, offset_dx = 0, offset_dy = 0\<rparr>"
  have "pixelAt (outpaintFinalCanvas nearest (solid 1 1 half_blue) ?g (solid 1 1 opaque_red)) 0 0
      = blend SourceOver (imageLayer (solid 1 1 half_blue) (offset_dx ?g) (offset_dy ?g) (int 0) (int 0))
          (imageLayer (nearest (solid 1 1 opaque_red) (nat (canvasWidth ?g)) (nat (canvasHeight ?g))) 0 0
             (int 0) (int 0))"
    by (rule outpaintFinalCanvas_pixel) simp_all
  also have "\<dots> = blend SourceOver half_blue opaque_red"
    by (simp add: solid_def imageLayer_def nearest_def)
  finally have "pixelAt (outpaintFinalCanvas nearest (solid 1 1 half_blue) (padGeometry 1 1 1) (solid 1 1 opaque_red))
      (nat (offset_dx (padGeometry 1 1 1)) + 0) (nat (offset_dy (padGeometry 1 1 1)) + 0)
      = blend SourceOver half_blue opaque_red"
    unfolding g by simp
  moreover have "blend SourceOver half_blue opaque_red \<noteq> half_blue"
    by (simp add: blend.simps half_blue_def opaque_red_def)
  moreover have "pixelAt (solid 1 1 half_blue) 0 0 = half_blue" by (simp add: solid_def)
  moreover have "outpaintImage_rest
     ((sampleEnv (\<lambda>s. Inr (solid 1 1 opaque_blue)) (\<lambda>a b c. Inl RemoteError))
        \<lparr>generateImageRest := (\<lambda>p a n. [js ''data:image/png;base64,BBBB''])\<rparr>)
     \<lparr>base64 = js ''AAAA'', mimeType = js ''image/png''\<rparr> 1 (js ''sky'')
     = Inr (Some (js ''data:image/png;base64,BBBB''))"
    by (simp add: outpaintImage_rest_def sampleEnv_def js_def)
  ultimately show ?thesis by simp
qed

text \<open>
  C8, amended. In the body of \<open>outpaintImage\<close> that calls the remote model with the
  padded image and the mask, for a decodable source and a target ratio in range, and
  whatever decodable image the remote model returns: the result is the PNG data URL of
  a canvas of the padded size (computed as in the padding function, with binary64
  arithmetic); the rectangle \<open>(dx, dy, sourceWidth, sourceHeight)\<close> lies inside the
  canvas; each pixel in it is the source pixel drawn source-over the answer stretched
  to the canvas size, hence the source pixel itself wherever the source is opaque
  (and the whole rectangle is the source when the source is opaque everywhere); and
  every pixel outside the rectangle is the pixel of the stretched answer. (The
  stretched answer is assumed to have the requested size.) In the body that forwards
  the prompt to the REST helper nothing is drawn: the first image the helper returns,
  if it is not empty, is the result, and with no image the result is \<open>null\<close>.
\<close>

theorem outpaint_keeps_opaque_source:
  "(loadImage E (sourceImageToDataUrl sourceImage) = Inr img \<and>
    inRange (naturalWidth img) (naturalHeight img) r \<and>
    g = padGeometry (naturalWidth img) (naturalHeight img) r \<and>
    generateContent E
       (secondPiece (toDataURL E (outpaintPaddedCanvas img g) (js ''image/png'')))
       (secondPiece (toDataURL E (outpaintMaskCanvas img g) (js ''image/png'')))
       (js ''Outpaint Task: '' @ prompt) = Inr parts \<and>
    find hasInlineData parts = Some (InlineDataPart mime payload) \<and> payload \<noteq> [] \<and>
    loadImage E (js ''data:'' @ (if mime = [] then js ''image/png'' else mime)
                    @ js '';base64,'' @ payload) = Inr resultImg \<and>
    S = resample E resultImg (nat (canvasWidth g)) (nat (canvasHeight g)) \<and>
    naturalWidth S = nat (canvasWidth g) \<and> naturalHeight S = nat (canvasHeight g) \<and>
    F = outpaintFinalCanvas (resample E) img g resultImg
    \<longrightarrow>
      outpaintImage E sourceImage r prompt = Inr (Some (toDataURL E F (js ''image/png''))) \<and>
      naturalWidth F = nat (canvasWidth g) \<and> naturalHeight F = nat (canvasHeight g) \<and>
      0 \<le> offset_dx g \<and> 0 \<le> offset_dy g \<and>
      offset_dx g + int (naturalWidth img) \<le> canvasWidth g \<and>
      offset_dy g + int (naturalHeight img) \<le> canvasHeight g \<and>
      (\<forall>x<naturalWidth img. \<forall>y<naturalHeight img.
         pixelAt F (nat (offset_dx g) + x) (nat (offset_dy g) + y)
           = blend SourceOver (pixelAt img x y)
               (pixelAt S (nat (offset_dx g) + x) (nat (offset_dy g) + y))) \<and>
      (\<forall>x<naturalWidth img. \<forall>y<naturalHeight img. alpha (pixelAt img x y) = 1 \<longrightarrow>
         pixelAt F (nat (offset_dx g) + x) (nat (offset_dy g) + y) = pixelAt img x y) \<and>
      (\<forall>X<naturalWidth F. \<forall>Y<naturalHeight F.
         \<not> (offset_dx g \<le> int X \<and> int X < offset_dx g + int (naturalWidth img) \<and>
            offset_dy g \<le> int Y \<and> int Y < offset_dy g + int (naturalHeight img))
         \<longrightarrow> pixelAt F X Y = pixelAt S X Y)) \<and>
   (generateImageRest E (js ''Outpaint/Extend: '' @ prompt) (js ''16:9'') 1 = i # others \<and> i \<noteq> []
      \<longrightarrow> outpaintImage_rest E sourceImage r prompt = Inr (Some i)) \<and>
   (generateImageRest E (js ''Outpaint/Extend: '' @ prompt) (js ''16:9'') 1 = []
      \<longrightarrow> outpaintImage_rest E sourceImage r prompt = Inr None)"
proof (intro conjI impI)
  assume a: "loadImage E (sourceImageToDataUrl sourceImage) = Inr img \<and>
    inRange (naturalWidth img) (naturalHeight img) r \<and>
    g = padGeometry (naturalWidth img) (naturalHeight img) r \<and>
    generateContent E
       (secondPiece (toDataURL E (outpaintPaddedCanvas img g) (js ''image/png'')))
       (secondPiece (toDataURL E (outpaintMaskCanvas img g) (js ''image/png'')))
       (js ''Outpaint Task: '' @ prompt) = Inr parts \<and>
    find hasInlineData parts = Some (InlineDataPart mime payload) \<and> payload \<noteq> [] \<and>
    loadImage E (js ''data:'' @ (if mime = [] then js ''image/png'' else mime)
                    @ js '';base64,'' @ payload) = Inr resultImg \<and>
    S = resample E resultImg (nat (canvasWidth g)) (nat (canvasHeight g)) \<and>
    naturalWidth S = nat (canvasWidth g) \<and> naturalHeight S = nat (canvasHeight g) \<and>
    F = outpaintFinalCanvas (resample E) img g resultImg"
  then have rg: "inRange (naturalWidth img) (naturalHeight img) r"
    and g: "g = padGeometry (naturalWidth img) (naturalHeight img) r"
    and S: "S = resample E resultImg (nat (canvasWidth g)) (nat (canvasHeight g))"
    and Ssize: "naturalWidth S = nat (canvasWidth g)" "naturalHeight S = nat (canvasHeight g)"
    and F: "F = outpaintFinalCanvas (resample E) img g resultImg"
    by blast+
  note b = inRange_bounds [OF rg]
  note f = padGeometry_fits [OF b(8) b(6) b(7) b(1) g]
  show "outpaintImage E sourceImage r prompt = Inr (Some (toDataURL E F (js ''image/png'')))"
    unfolding F using a by (intro outpaintImage_result) blast+
  show size: "naturalWidth F = nat (canvasWidth g)" "naturalHeight F = nat (canvasHeight g)"
    by (simp_all add: F outpaintFinalCanvas_size)
  show "0 \<le> offset_dx g" "0 \<le> offset_dy g"
    "offset_dx g + int (naturalWidth img) \<le> canvasWidth g"
    "offset_dy g + int (naturalHeight img) \<le> canvasHeight g"
    by (rule f)+
  have px: "pixelAt F X Y
           = blend SourceOver (imageLayer img (offset_dx g) (offset_dy g) (int X) (int Y)) (pixelAt S X Y)"
    if "X < nat (canvasWidth g)" "Y < nat (canvasHeight g)" for X Y
  proof -
    have "imageLayer S 0 0 (int X) (int Y) = pixelAt S X Y"
      using that Ssize by (simp add: imageLayer_origin)
    then show ?thesis
      unfolding F outpaintFinalCanvas_pixel [OF that] S by simp
  qed
  have inside: "pixelAt F (nat (offset_dx g) + x) (nat (offset_dy g) + y)
           = blend SourceOver (pixelAt img x y)
               (pixelAt S (nat (offset_dx g) + x) (nat (offset_dy g) + y))"
    if "x < naturalWidth img" "y < naturalHeight img" for x y
  proof -
    have X: "nat (offset_dx g) + x < nat (canvasWidth g)" using f that by linarith
    have Y: "nat (offset_dy g) + y < nat (canvasHeight g)" using f that by linarith
    have i: "int (nat (offset_dx g) + x) = offset_dx g + int x"
      "int (nat (offset_dy g) + y) = offset_dy g + int y"
      using f by simp_all
    show ?thesis
      unfolding px [OF X Y] i using that by (simp only: imageLayer_inside)
  qed
  show "\<forall>x<naturalWidth img. \<forall>y<naturalHeight img.
         pixelAt F (nat (offset_dx g) + x) (nat (offset_dy g) + y)
           = blend SourceOver (pixelAt img x y)
               (pixelAt S (nat (offset_dx g) + x) (nat (offset_dy g) + y))"
    using inside by blast
  show "\<forall>x<naturalWidth img. \<forall>y<naturalHeight img. alpha (pixelAt img x y) = 1 \<longrightarrow>
         pixelAt F (nat (offset_dx g) + x) (nat (offset_dy g) + y) = pixelAt img x y"
    using inside by (simp add: blend_opaque_over)
  show "\<forall>X<naturalWidth F. \<forall>Y<naturalHeight F.
         \<not> (offset_dx g \<le> int X \<and> int X < offset_dx g + int (naturalWidth img) \<and>
            offset_dy g \<le> int Y \<and> int Y < offset_dy g + int (naturalHeight img))
         \<longrightarrow> pixelAt F X Y = pixelAt S X Y"
  proof (intro allI impI)
    fix X Y
    assume X: "X < naturalWidth F" and Y: "Y < naturalHeight F"
      and out: "\<not> (offset_dx g \<le> int X \<and> int X < offset_dx g + int (naturalWidth img) \<and>
            offset_dy g \<le> int Y \<and> int Y < offset_dy g + int (naturalHeight img))"
    have t: "imageLayer img (offset_dx g) (offset_dy g) (int X) (int Y) = transparent"
      unfolding imageLayer_def using out by (simp only: if_False)
    have "X < nat (canvasWidth g)" "Y < nat (canvasHeight g)" using X Y size by simp_all
    then show "pixelAt F X Y = pixelAt S X Y"
      by (simp add: px t)
  qed
next
  assume "generateImageRest E (js ''Outpaint/Extend: '' @ prompt) (js ''16:9'') 1 = i # others \<and> i \<noteq> []"
  then show "outpaintImage_rest E sourceImage r prompt = Inr (Some i)"
    by (simp add: outpaintImage_rest_result)
next
  assume "generateImageRest E (js ''Outpaint/Extend: '' @ prompt) (js ''16:9'') 1 = []"
  then show "outpaintImage_rest E sourceImage r prompt = Inr None"
    by (simp add: outpaintImage_rest_result)
qed


theorem outpaint_keeps_opaque_source_witness:
  "outpaintImage
     (sampleEnv
        (sampleDecode [(js ''data:image/png;base64,AAAA'', solid 2 1 opaque_red),
                       (js ''data:image/png;base64,BBBB'', solid 1 1 opaque_blue)])
        (\<lambda>a b c. Inr [TextPart (js ''done''), InlineDataPart [] (js ''BBBB'')]))
     \<lparr>base64 = js ''AAAA'', mimeType = js ''image/png''\<rparr> 1 (js ''sky'')
     = Inr (Some (js ''data:image/png;base64,AAAA'')) \<and>
   padGeometry 2 1 1 = \<lparr>canvasWidth = 2, canvasHeight = 2, offset_dx = 0, offset_dy = 1\<rparr> \<and>
   pixelAt (outpaintFinalCanvas nearest (solid 2 1 opaque_red) (padGeometry 2 1 1) (solid 1 1 opaque_blue))
     (0 + 1) (1 + 0) = opaque_red \<and>
   pixelAt (outpaintFinalCanvas nearest (solid 2 1 opaque_red) (padGeometry 2 1 1) (solid 1 1 opaque_blue))
     1 0 = opaque_blue \<and>
   outpaintImage_rest
     (sampleEnv (\<lambda>s. Inl LoadError) (\<lambda>a b c. Inl RemoteError))
     \<lparr>base64 = js ''AAAA'', mimeType = js ''image/png''\<rparr> 1 (js ''sky'') = Inr None \<and>
   outpaintImage_rest
     ((sampleEnv (\<lambda>s. Inl LoadError) (\<lambda>a b c. Inl RemoteError))
        \<lparr>generateImageRest := (\<lambda>p a n. [js ''data:image/png;base64,BBBB'', js ''second''])\<rparr>)
     \<lparr>base64 = js ''AAAA'', mimeType = js ''image/png''\<rparr> 1 (js ''sky'')
     = Inr (Some (js ''data:image/png;base64,BBBB''))"
proof -
  let ?E = "sampleEnv
        (sampleDecode [(js ''data:image/png;base64,AAAA'', solid 2 1 opaque_red),
                       (js ''data:image/png;base64,BBBB'', solid 1 1 opaque_blue)])
        (\<lambda>a b c. Inr [TextPart (js ''done''), InlineDataPart [] (js ''BBBB'')])"
  let ?R0 = "sampleEnv (\<lambda>s. Inl LoadError) (\<lambda>a b c. Inl RemoteError)"
  let ?R1 = "?R0\<lparr>generateImageRest := (\<lambda>p a n. [js ''data:image/png;base64,BBBB'', js ''second''])\<rparr>"
  let ?s = "\<lparr>base64 = js ''AAAA'', mimeType = js ''image/png''\<rparr>"
  let ?img = "solid 2 1 opaque_red"
  let ?res = "solid 1 1 opaque_blue"
  let ?g = "padGeometry (naturalWidth ?img) (naturalHeight ?img) 1"
  let ?S = "resample ?E ?res (nat (canvasWidth ?g)) (nat (canvasHeight ?g))"
  let ?F = "outpaintFinalCanvas (resample ?E) ?img ?g ?res"
  have g: "padGeometry 2 1 1 = \<lparr>canvasWidth = 2, canvasHeight = 2, offset_dx = 0, offset_dy = 1\<rparr>"
    by (simp add: geometry_eval)
  have g': "?g = \<lparr>canvasWidth = 2, canvasHeight = 2, offset_dx = 0, offset_dy = 1\<rparr>"
    unfolding solid_simps by (rule g)
  have gS: "padGeometry 2 (Suc 0) 1 = \<lparr>canvasWidth = 2, canvasHeight = 2, offset_dx = 0, offset_dy = 1\<rparr>"
    using g by simp
  have a1: "loadImage ?E (sourceImageToDataUrl ?s) = Inr ?img"
    by (simp add: sampleEnv_simps sampleDecode_def sourceImageToDataUrl_def js_def)
  have a2: "inRange (naturalWidth ?img) (naturalHeight ?img) 1"
    by (simp add: solid_simps inRange_def)
  have a6: "generateContent ?E
       (secondPiece (toDataURL ?E (outpaintPaddedCanvas ?img ?g) (js ''image/png'')))
       (secondPiece (toDataURL ?E (outpaintMaskCanvas ?img ?g) (js ''image/png'')))
       (js ''Outpaint Task: '' @ js ''sky'') = Inr [TextPart (js ''done''), InlineDataPart [] (js ''BBBB'')]"
    by (simp add: sampleEnv_simps)
  have a7: "find hasInlineData [TextPart (js ''done''), InlineDataPart [] (js ''BBBB'')]
              = Some (InlineDataPart [] (js ''BBBB''))" by simp
  have a8: "js ''BBBB'' \<noteq> []" by (simp add: js_def)
  have a9: "loadImage ?E (js ''data:'' @ (if [] = [] then js ''image/png'' else []) @ js '';base64,'' @ js ''BBBB'')
              = Inr ?res"
    by (simp add: sampleEnv_simps sampleDecode_def js_def)
  have a10: "naturalWidth ?S = nat (canvasWidth ?g)" "naturalHeight ?S = nat (canvasHeight ?g)"
    by (simp_all add: sampleEnv_simps nearest_def)
  note t = outpaint_keeps_opaque_source [of ?E ?s ?img 1 ?g "js ''sky''"
      "[TextPart (js ''done''), InlineDataPart [] (js ''BBBB'')]" "[]" "js ''BBBB''" ?res ?S ?F
      "[]" "[]"]
  have hyp: "loadImage ?E (sourceImageToDataUrl ?s) = Inr ?img \<and>
    inRange (naturalWidth ?img) (naturalHeight ?img) 1 \<and>
    ?g = padGeometry (naturalWidth ?img) (naturalHeight ?img) 1 \<and>
    generateContent ?E
       (secondPiece (toDataURL ?E (outpaintPaddedCanvas ?img ?g) (js ''image/png'')))
       (secondPiece (toDataURL ?E (outpaintMaskCanvas ?img ?g) (js ''image/png'')))
       (js ''Outpaint Task: '' @ js ''sky'') = Inr [TextPart (js ''done''), InlineDataPart [] (js ''BBBB'')] \<and>
    find hasInlineData [TextPart (js ''done''), InlineDataPart [] (js ''BBBB'')]
      = Some (InlineDataPart [] (js ''BBBB'')) \<and> js ''BBBB'' \<noteq> [] \<and>
    loadImage ?E (js ''data:'' @ (if [] = [] then js ''image/png'' else []) @ js '';base64,'' @ js ''BBBB'')
      = Inr ?res \<and>
    ?S = resample ?E ?res (nat (canvasWidth ?g)) (nat (canvasHeight ?g)) \<and>
    naturalWidth ?S = nat (canvasWidth ?g) \<and> naturalHeight ?S = nat (canvasHeight ?g) \<and>
    ?F = outpaintFinalCanvas (resample ?E) ?img ?g ?res"
    using a1 a2 a6 a7 a8 a9 a10 by (intro conjI refl)
  have 1: "outpaintImage ?E ?s 1 (js ''sky'') = Inr (Some (toDataURL ?E ?F (js ''image/png'')))"
    using t hyp by blast
  have q: "\<forall>x<naturalWidth ?img. \<forall>y<naturalHeight ?img. alpha (pixelAt ?img x y) = 1 \<longrightarrow>
         pixelAt ?F (nat (offset_dx ?g) + x) (nat (offset_dy ?g) + y) = pixelAt ?img x y"
    using t hyp by blast
  have 2: "pixelAt ?F (0 + 1) (1 + 0) = opaque_red"
    using q [rule_format, of 1 0] by (simp add: gS solid_simps opaque_red_def)
  have q': "\<forall>X<naturalWidth ?F. \<forall>Y<naturalHeight ?F.
         \<not> (offset_dx ?g \<le> int X \<and> int X < offset_dx ?g + int (naturalWidth ?img) \<and>
            offset_dy ?g \<le> int Y \<and> int Y < offset_dy ?g + int (naturalHeight ?img))
         \<longrightarrow> pixelAt ?F X Y = pixelAt ?S X Y"
    using t hyp by blast
  have 3: "pixelAt ?F 1 0 = opaque_blue"
    using q' [rule_format, of 1 0]
    by (simp add: gS solid_simps outpaintFinalCanvas_size sampleEnv_simps nearest_def)
  have r0: "generateImageRest ?R0 (js ''Outpaint/Extend: '' @ js ''sky'') (js ''16:9'') 1 = []"
    by (simp add: sampleEnv_simps)
  have r1: "generateImageRest ?R1 (js ''Outpaint/Extend: '' @ js ''sky'') (js ''16:9'') 1
              = js ''data:image/png;base64,BBBB'' # [js ''second''] \<and> js ''data:image/png;base64,BBBB'' \<noteq> []"
    by (simp add: js_def)
  have 4: "outpaintImage_rest ?R0 ?s 1 (js ''sky'') = Inr None"
    using outpaint_keeps_opaque_source [of ?R0 ?s ?img 1 ?g "js ''sky''" "[]" "[]" "[]" ?res ?S ?F
        "[]" "[]"] r0 by blast
  have 5: "outpaintImage_rest ?R1 ?s 1 (js ''sky'') = Inr (Some (js ''data:image/png;base64,BBBB''))"
    using outpaint_keeps_opaque_source [of ?R1 ?s ?img 1 ?g "js ''sky''" "[]" "[]" "[]" ?res ?S ?F
        "js ''data:image/png;base64,BBBB''" "[js ''second'']"] r1 by blast
  from 1 g 2 3 4 5 show ?thesis
    by (simp add: sampleEnv_simps solid_simps gS)
qed

end
